theory Spec2Isabelle
  imports Main
begin

section \<open>Data model\<close>

text \<open>
  The entities of \<^verbatim>\<open>src/entities\<close>, with the columns the services read or write.
  \<^verbatim>\<open>stock\<close>, \<^verbatim>\<open>reservedStock\<close> and \<^verbatim>\<open>quantity\<close> are integer columns and are kept as
  \<open>int\<close> (a cancellation may drive \<^verbatim>\<open>reservedStock\<close> below zero, nothing in the code
  prevents it). \<^verbatim>\<open>price\<close> is a \<^verbatim>\<open>decimal(10,2)\<close> column and the totals are decimal
  columns too; amounts are held in minor units, as the columns store them. The doubles
  JavaScript computes with in between differ from the exact amounts by far less than
  half a minor unit for anything these columns can hold, and that difference is not
  modelled. A product row is stored under its primary key, so the \<^verbatim>\<open>id\<close> column is the
  key of the table. The keys are \<^verbatim>\<open>uuid\<close> columns; the services and their callers hand
  them around as texts.
\<close>

record Product =
  name :: string
  price :: int
  stock :: int
  reservedStock :: int
  isActive :: bool

datatype OrderStatus = PENDING | CONFIRMED | FAILED | CANCELLED | COMPLETED

datatype EventType =
  ORDER_CREATED | STOCK_RESERVED | PAYMENT_PROCESSED | ORDER_CONFIRMED | ORDER_FAILED
  | ORDER_CANCELLED

text \<open>One entry of \<^verbatim>\<open>data.items\<close>: \<^verbatim>\<open>{ productId, quantity }\<close>.\<close>

record request_item =
  productId :: string
  quantity :: int

record request =
  req_userId :: string
  items :: "request_item list"

record Order =
  order_id :: string
  userId :: string
  status :: OrderStatus
  totalPrice :: int
  referenceNo :: string

record OrderItem =
  item_id :: string
  orderId :: string
  item_productId :: string
  item_quantity :: int
  unitPrice :: int
  item_totalPrice :: int

text \<open>
  The \<^verbatim>\<open>payload\<close> column holds \<^verbatim>\<open>JSON.stringify\<close> of a small object; the object is kept
  as it is before serialisation.
\<close>

datatype payload =
  CreatedPayload "request_item list" int
  | CancelledPayload nat
  | StatusPayload OrderStatus OrderStatus

record EventLog =
  event_id :: string
  event_orderId :: string
  eventType :: EventType
  payload :: payload

text \<open>
  The relational store. Only the existence of a user is ever asked, so the users table
  is the set of its keys. The other tables keep their rows in insertion order.
\<close>

record database =
  users :: "string set"
  products :: "string \<rightharpoonup> Product"
  orders :: "Order list"
  orderItems :: "OrderItem list"
  eventLogs :: "EventLog list"

datatype db_write =
  SaveProduct string Product
  | SaveOrder Order
  | SaveOrderItem OrderItem
  | SaveEventLog EventLog

text \<open>
  What the services throw. \<^verbatim>\<open>createOrder\<close> and \<^verbatim>\<open>cancelOrder\<close> throw \<^verbatim>\<open>Error\<close>
  objects that differ in their message only; each of the first five constructors stands
  for one \<^verbatim>\<open>throw\<close> site and carries what the message interpolates. The others
  are thrown by what the services call: a query the store cannot run because the text
  is no key of the column (\<^verbatim>\<open>QueryFailedError\<close>), a write it refuses, the
  \<^verbatim>\<open>TypeError\<close> of \<^verbatim>\<open>product!.price\<close> on \<^verbatim>\<open>null\<close>, the \<^verbatim>\<open>SyntaxError\<close> of
  \<^verbatim>\<open>JSON.parse\<close>.
\<close>

datatype error =
  UserAbsent
  | LockRefused string
  | ProductAbsent string
  | StockShort string int int
  | OrderAlreadyCancelled
  | QueryFailed string
  | SaveRejected db_write
  | NullProduct string
  | BadJson string

datatype error_kind = NotFound | InsufficientStock | LockConflict | AlreadyCancelled | Internal

fun kind :: "error \<Rightarrow> error_kind" where
  "kind UserAbsent = NotFound"
| "kind (ProductAbsent p) = NotFound"
| "kind (StockShort n a r) = InsufficientStock"
| "kind (LockRefused p) = LockConflict"
| "kind OrderAlreadyCancelled = AlreadyCancelled"
| "kind (QueryFailed k) = Internal"
| "kind (SaveRejected w) = Internal"
| "kind (NullProduct p) = Internal"
| "kind (BadJson s) = Internal"

section \<open>The shared key/value store, the broker and the environment\<close>

record redis_entry =
  rvalue :: string
  ttl :: nat

text \<open>The message handed to \<^verbatim>\<open>publishToExchange\<close> after commit.\<close>

record message =
  exchange :: string
  routingKey :: string
  msg_orderId :: string
  msg_userId :: string
  msg_referenceNo :: string
  msg_totalPrice :: int
  msg_items :: "request_item list"
  msg_timestamp :: nat

text \<open>Every call that leaves the process, in the order it is made.\<close>

datatype io =
  FindUser string
  | FindProduct string
  | FindOrder string
  | Save db_write
  | Commit
  | Rollback
  | RedisSetNX string string nat
  | RedisSetEx string nat string
  | RedisGet string
  | RedisDel string
  | Publish string string

text \<open>
  What \<^verbatim>\<open>JSON.parse\<close> makes of a cached text: \<^verbatim>\<open>null\<close>, a product snapshot, or
  any other value (kept as its text). \<^verbatim>\<open>getProductById\<close> hands the value back as it
  is.
\<close>

datatype cached = NullValue | Snapshot Product | OtherValue string

text \<open>
  What the code takes from outside and cannot decide itself: the values \<^verbatim>\<open>uuidv4()\<close>
  draws (the \<open>n\<close>-th call returns \<open>uuidv4 e n\<close>), the clock, the JSON codec
  (\<open>parse\<close> is \<open>None\<close> where \<^verbatim>\<open>JSON.parse\<close> throws), which texts the store refuses
  as the key of a \<^verbatim>\<open>uuid\<close> column, which writes it refuses, and whether the broker
  refuses a publish.

  The store is chosen by \<^verbatim>\<open>DB_TYPE\<close> in \<^verbatim>\<open>config/database.ts\<close>. PostgreSQL, the
  default, cannot compare a \<^verbatim>\<open>uuid\<close> column with a text that is not a UUID: the
  query fails and \<^verbatim>\<open>findOne\<close> throws. MySQL, the other type admitted, keeps such a
  column as text and finds no row. Nothing on the way to the services checks the form
  of an id (the validators ask for a string), so \<open>refusesKey\<close> can hold of a text
  that a request carries.
\<close>

record env =
  uuidv4 :: "nat \<Rightarrow> string"
  clock :: nat
  stringify :: "Product \<Rightarrow> string"
  parse :: "string \<Rightarrow> cached option"
  refusesKey :: "string \<Rightarrow> bool"
  rejects :: "db_write \<Rightarrow> bool"
  brokerRefuses :: bool

text \<open>
  The world between two requests: the committed rows, the Redis keyspace (locks and
  product snapshots share it; an entry whose time has run out is absent), the
  module-level \<^verbatim>\<open>channel\<close> of \<^verbatim>\<open>config/rabbitmq.ts\<close> (\<open>False\<close> when it is
  \<^verbatim>\<open>null\<close>), what the broker has accepted, the number of uuids drawn so far and the
  calls made so far.
\<close>

record world =
  db :: database
  redis :: "string \<rightharpoonup> redis_entry"
  channel :: bool
  outbox :: "message list"
  drawn :: nat
  trace :: "io list"

definition STOCK_LOCK_PREFIX :: string where
  "STOCK_LOCK_PREFIX = ''stock_lock:''"

definition STOCK_LOCK_TTL :: nat where
  "STOCK_LOCK_TTL = 30"

definition PRODUCT_CACHE_PREFIX :: string where
  "PRODUCT_CACHE_PREFIX = ''product:''"

definition PRODUCT_CACHE_TTL :: nat where
  "PRODUCT_CACHE_TTL = 3600"

definition emit :: "io \<Rightarrow> world \<Rightarrow> world" where
  "emit c w = w\<lparr>trace := trace w @ [c]\<rparr>"

text \<open>\<^verbatim>\<open>uuidv4()\<close>: the next draw.\<close>

definition draw :: "env \<Rightarrow> world \<Rightarrow> string \<times> world" where
  "draw e w = (uuidv4 e (drawn w), w\<lparr>drawn := Suc (drawn w)\<rparr>)"

text \<open>
  \<^verbatim>\<open>redisClient.set(key, v, { EX: t, NX: true })\<close>: one command, which stores the value
  with its expiry when the key is absent and answers \<^verbatim>\<open>null\<close> (here \<open>False\<close>) when it
  is present.
\<close>

definition redis_set_nx :: "string \<Rightarrow> string \<Rightarrow> nat \<Rightarrow> world \<Rightarrow> bool \<times> world" where
  "redis_set_nx k v t w =
     (let w1 = emit (RedisSetNX k v t) w
      in case redis w k of
           None \<Rightarrow> (True, w1\<lparr>redis := (redis w)(k \<mapsto> \<lparr>rvalue = v, ttl = t\<rparr>)\<rparr>)
         | Some held \<Rightarrow> (False, w1))"

definition redis_del :: "string \<Rightarrow> world \<Rightarrow> world" where
  "redis_del k w = (emit (RedisDel k) w)\<lparr>redis := (redis w)(k := None)\<rparr>"

definition redis_get :: "string \<Rightarrow> world \<Rightarrow> string option \<times> world" where
  "redis_get k w = (map_option rvalue (redis w k), emit (RedisGet k) w)"

definition redis_setEx :: "string \<Rightarrow> nat \<Rightarrow> string \<Rightarrow> world \<Rightarrow> world" where
  "redis_setEx k t v w =
     (emit (RedisSetEx k t v) w)\<lparr>redis := (redis w)(k \<mapsto> \<lparr>rvalue = v, ttl = t\<rparr>)\<rparr>"

text \<open>
  \<^verbatim>\<open>manager.save(row)\<close> on a table with a primary key: the row replaces the one with its
  key, or is inserted after the others.
\<close>

fun upsert :: "('a \<Rightarrow> string) \<Rightarrow> 'a \<Rightarrow> 'a list \<Rightarrow> 'a list" where
  "upsert key r [] = [r]"
| "upsert key r (x # xs) = (if key x = key r then r # xs else x # upsert key r xs)"

fun apply_write :: "db_write \<Rightarrow> database \<Rightarrow> database" where
  "apply_write (SaveProduct k p) d = d\<lparr>products := (products d)(k \<mapsto> p)\<rparr>"
| "apply_write (SaveOrder ord) d = d\<lparr>orders := upsert order_id ord (orders d)\<rparr>"
| "apply_write (SaveOrderItem it) d = d\<lparr>orderItems := upsert item_id it (orderItems d)\<rparr>"
| "apply_write (SaveEventLog ev) d = d\<lparr>eventLogs := upsert event_id ev (eventLogs d)\<rparr>"

text \<open>
  \<^verbatim>\<open>queryRunner.manager.save\<close> inside the open transaction: \<open>tx\<close> is the transaction's
  view of the rows, which only \<^verbatim>\<open>commitTransaction\<close> makes the committed ones. A
  refused write throws.
\<close>

definition save :: "env \<Rightarrow> db_write \<Rightarrow> world \<Rightarrow> database \<Rightarrow> world \<times> (error + database)" where
  "save e wr w tx =
     (if rejects e wr then (emit (Save wr) w, Inl (SaveRejected wr))
      else (emit (Save wr) w, Inr (apply_write wr tx)))"

text \<open>
  \<^verbatim>\<open>findOne({ where: { id } })\<close>, on a repository or through the transaction: the
  query throws when the store refuses the text as a key, and answers with the row
  stored under it, or with \<^verbatim>\<open>null\<close>, otherwise.
\<close>

definition findOne :: "env \<Rightarrow> string \<Rightarrow> 'row option \<Rightarrow> error + 'row option" where
  "findOne e k stored = (if refusesKey e k then Inl (QueryFailed k) else Inr stored)"

section \<open>\<^verbatim>\<open>OrderService.createOrder\<close>\<close>

text \<open>
  Calls to Redis are taken to return; a read of the store may fail on its key
  (\<open>refusesKey\<close>) and a write may be refused (\<open>rejects\<close>). The \<^verbatim>\<open>reservations\<close>
  map of the source is written and never read, and is left out.

  The body of the inner \<^verbatim>\<open>try\<close> of the reservation loop, run while the lock is held:
  read the product through the transaction, check the stock, move the quantity from
  \<^verbatim>\<open>stock\<close> to \<^verbatim>\<open>reservedStock\<close>, save, add to the running total and delete the
  cached snapshot.
\<close>

definition reserveLocked ::
  "env \<Rightarrow> request_item \<Rightarrow> world \<Rightarrow> database \<Rightarrow> int \<Rightarrow> world \<times> (error + database \<times> int)" where
  "reserveLocked e item w tx tot =
     (let w1 = emit (FindProduct (productId item)) w
      in case findOne e (productId item) (products tx (productId item)) of
           Inl err \<Rightarrow> (w1, Inl err)
         | Inr None \<Rightarrow> (w1, Inl (ProductAbsent (productId item)))
         | Inr (Some product) \<Rightarrow>
             if stock product < quantity item
             then (w1, Inl (StockShort (name product) (stock product) (quantity item)))
             else
               (let product' = product\<lparr>stock := stock product - quantity item,
                                 reservedStock := reservedStock product + quantity item\<rparr>
                in case save e (SaveProduct (productId item) product') w1 tx of
                     (w2, Inl err) \<Rightarrow> (w2, Inl err)
                   | (w2, Inr tx') \<Rightarrow>
                       (redis_del (''product:'' @ productId item) w2,
                        Inr (tx', tot + price product' * quantity item))))"

text \<open>
  One turn of the loop. A refused lock throws before the inner \<^verbatim>\<open>try\<close> is entered, so
  the \<^verbatim>\<open>finally\<close> that deletes the lock key runs only when the lock was taken, and
  then on every way out.
\<close>

definition reserveItem ::
  "env \<Rightarrow> request_item \<Rightarrow> world \<Rightarrow> database \<Rightarrow> int \<Rightarrow> world \<times> (error + database \<times> int)" where
  "reserveItem e item w tx tot =
     (let lockKey = STOCK_LOCK_PREFIX @ productId item;
          (token, w1) = draw e w;
          (locked, w2) = redis_set_nx lockKey token STOCK_LOCK_TTL w1
      in if \<not> locked then (w2, Inl (LockRefused (productId item)))
         else (case reserveLocked e item w2 tx tot of
                 (w3, r) \<Rightarrow> (redis_del lockKey w3, r)))"

fun reserveAll ::
  "env \<Rightarrow> request_item list \<Rightarrow> world \<Rightarrow> database \<Rightarrow> int \<Rightarrow> world \<times> (error + database \<times> int)" where
  "reserveAll e [] w tx tot = (w, Inr (tx, tot))"
| "reserveAll e (item # rest) w tx tot =
     (case reserveItem e item w tx tot of
        (w', Inl err) \<Rightarrow> (w', Inl err)
      | (w', Inr (tx', tot')) \<Rightarrow> reserveAll e rest w' tx' tot')"

text \<open>Decimal digits of a number, as a template literal prints it.\<close>

function show_nat :: "nat \<Rightarrow> string" where
  "show_nat n =
     (if n < 10 then [char_of (48 + n)]
      else show_nat (n div 10) @ [char_of (48 + n mod 10)])"
  by pat_completeness auto
termination
  by (relation "measure id") auto

declare show_nat.simps [simp del]

text \<open>
  Step 4: one order item per requested line. The product is read again through the
  transaction; \<^verbatim>\<open>product!.price\<close> on a missing row is a \<^verbatim>\<open>TypeError\<close>, raised after
  the item's uuid has been drawn, while a read that fails throws before the draw.
\<close>

definition createOrderItem ::
  "env \<Rightarrow> Order \<Rightarrow> request_item \<Rightarrow> world \<Rightarrow> database \<Rightarrow> world \<times> (error + database)" where
  "createOrderItem e savedOrder item w tx =
     (let w1 = emit (FindProduct (productId item)) w
      in case findOne e (productId item) (products tx (productId item)) of
           Inl err \<Rightarrow> (w1, Inl err)
         | Inr found \<Rightarrow>
             (let (iid, w2) = draw e w1
              in case found of
                   None \<Rightarrow> (w2, Inl (NullProduct (productId item)))
                 | Some product \<Rightarrow>
                     save e (SaveOrderItem
                         \<lparr>item_id = iid, orderId = order_id savedOrder,
                          item_productId = productId item, item_quantity = quantity item,
                          unitPrice = price product,
                          item_totalPrice = price product * quantity item\<rparr>) w2 tx))"

fun createOrderItems ::
  "env \<Rightarrow> Order \<Rightarrow> request_item list \<Rightarrow> world \<Rightarrow> database \<Rightarrow> world \<times> (error + database)" where
  "createOrderItems e savedOrder [] w tx = (w, Inr tx)"
| "createOrderItems e savedOrder (item # rest) w tx =
     (case createOrderItem e savedOrder item w tx of
        (w', Inl err) \<Rightarrow> (w', Inl err)
      | (w', Inr tx') \<Rightarrow> createOrderItems e savedOrder rest w' tx')"

text \<open>Steps 3 to 5, after the reservations: the order, its items, the event log row.\<close>

definition persistOrder ::
  "env \<Rightarrow> request \<Rightarrow> int \<Rightarrow> world \<Rightarrow> database \<Rightarrow> world \<times> (error + database \<times> Order)" where
  "persistOrder e data tot w tx =
     (let (u1, w1) = draw e w;
          refNo = ''ORD-'' @ show_nat (clock e) @ ''-'' @ take 8 u1;
          (oid, w2) = draw e w1;
          order = \<lparr>order_id = oid, userId = req_userId data, status = PENDING,
                   totalPrice = tot, referenceNo = refNo\<rparr>
      in case save e (SaveOrder order) w2 tx of
           (w3, Inl err) \<Rightarrow> (w3, Inl err)
         | (w3, Inr tx1) \<Rightarrow>
             (case createOrderItems e order (items data) w3 tx1 of
                (w4, Inl err) \<Rightarrow> (w4, Inl err)
              | (w4, Inr tx2) \<Rightarrow>
                  (let (eid, w5) = draw e w4;
                       eventLog = \<lparr>event_id = eid, event_orderId = order_id order,
                                    eventType = ORDER_CREATED,
                                    payload = CreatedPayload (items data) tot\<rparr>
                   in case save e (SaveEventLog eventLog) w5 tx2 of
                        (w6, Inl err) \<Rightarrow> (w6, Inl err)
                      | (w6, Inr tx3) \<Rightarrow> (w6, Inr (tx3, order)))))"

text \<open>
  The outer \<^verbatim>\<open>try\<close> up to the commit. The user is looked up through the repository
  (outside the transaction, which has written nothing yet).
\<close>

definition createOrderTx ::
  "env \<Rightarrow> request \<Rightarrow> world \<Rightarrow> world \<times> (error + database \<times> Order)" where
  "createOrderTx e data w =
     (let w1 = emit (FindUser (req_userId data)) w
      in case findOne e (req_userId data)
                (if req_userId data \<in> users (db w) then Some (req_userId data) else None) of
           Inl err \<Rightarrow> (w1, Inl err)
         | Inr None \<Rightarrow> (w1, Inl UserAbsent)
         | Inr (Some user) \<Rightarrow>
             (case reserveAll e (items data) w1 (db w) 0 of
                (w2, Inl err) \<Rightarrow> (w2, Inl err)
              | (w2, Inr (tx, tot)) \<Rightarrow> persistOrder e data tot w2 tx))"

text \<open>
  \<^verbatim>\<open>publishToExchange\<close> of \<^verbatim>\<open>config/rabbitmq.ts\<close>: \<^verbatim>\<open>getChannel\<close> throws when the
  channel is \<^verbatim>\<open>null\<close>; asserting the exchange or sending may throw too. The result
  says whether the call returned normally.
\<close>

definition publishToExchange :: "env \<Rightarrow> message \<Rightarrow> world \<Rightarrow> bool \<times> world" where
  "publishToExchange e m w =
     (if \<not> channel w then (False, w)
      else if brokerRefuses e then (False, emit (Publish (exchange m) (routingKey m)) w)
      else (True, (emit (Publish (exchange m) (routingKey m)) w)\<lparr>outbox := outbox w @ [m]\<rparr>))"

text \<open>
  \<^verbatim>\<open>createOrder\<close>: any throw inside the outer \<^verbatim>\<open>try\<close> rolls the transaction back and
  is thrown again; otherwise the transaction is committed, and the publish that follows
  sits in a \<^verbatim>\<open>try\<close> of its own whose \<^verbatim>\<open>catch\<close> only logs.
\<close>

definition orderCreated :: "env \<Rightarrow> request \<Rightarrow> Order \<Rightarrow> message" where
  "orderCreated e data savedOrder =
     \<lparr>exchange = ''order_events'', routingKey = ''order.created'',
      msg_orderId = order_id savedOrder, msg_userId = req_userId data,
      msg_referenceNo = referenceNo savedOrder,
      msg_totalPrice = totalPrice savedOrder, msg_items = items data,
      msg_timestamp = clock e\<rparr>"

definition createOrder :: "env \<Rightarrow> request \<Rightarrow> world \<Rightarrow> world \<times> (error + Order)" where
  "createOrder e data w =
     (case createOrderTx e data w of
        (w1, Inl err) \<Rightarrow> (emit Rollback w1, Inl err)
      | (w1, Inr (tx, savedOrder)) \<Rightarrow>
          (let w2 = (emit Commit w1)\<lparr>db := tx\<rparr>;
               (published, w3) = publishToExchange e (orderCreated e data savedOrder) w2
           in (w3, Inr savedOrder)))"

section \<open>\<^verbatim>\<open>OrderService.cancelOrder\<close>\<close>

text \<open>
  One turn of the restore loop: a product that is found gets the quantity back and its
  cached snapshot deleted; a product that is not found is passed over.
\<close>

definition restoreItem ::
  "env \<Rightarrow> OrderItem \<Rightarrow> world \<Rightarrow> database \<Rightarrow> world \<times> (error + database)" where
  "restoreItem e item w tx =
     (let w1 = emit (FindProduct (item_productId item)) w
      in case products tx (item_productId item) of
           None \<Rightarrow> (w1, Inr tx)
         | Some product \<Rightarrow>
             (let product' = product\<lparr>stock := stock product + item_quantity item,
                               reservedStock := reservedStock product - item_quantity item\<rparr>
              in case save e (SaveProduct (item_productId item) product') w1 tx of
                   (w2, Inl err) \<Rightarrow> (w2, Inl err)
                 | (w2, Inr tx') \<Rightarrow>
                     (redis_del (''product:'' @ item_productId item) w2, Inr tx')))"

fun restoreAll ::
  "env \<Rightarrow> OrderItem list \<Rightarrow> world \<Rightarrow> database \<Rightarrow> world \<times> (error + database)" where
  "restoreAll e [] w tx = (w, Inr tx)"
| "restoreAll e (item # rest) w tx =
     (case restoreItem e item w tx of
        (w', Inl err) \<Rightarrow> (w', Inl err)
      | (w', Inr tx') \<Rightarrow> restoreAll e rest w' tx')"

text \<open>The \<^verbatim>\<open>items\<close> relation of an order: the order items that carry its id.\<close>

definition itemsOf :: "string \<Rightarrow> database \<Rightarrow> OrderItem list" where
  "itemsOf oid d = filter (\<lambda>i. orderId i = oid) (orderItems d)"

definition cancelTx ::
  "env \<Rightarrow> Order \<Rightarrow> world \<Rightarrow> database \<Rightarrow> world \<times> (error + database \<times> Order)" where
  "cancelTx e order w tx =
     (case restoreAll e (itemsOf (order_id order) tx) w tx of
        (w1, Inl err) \<Rightarrow> (w1, Inl err)
      | (w1, Inr tx1) \<Rightarrow>
          (let updated = order\<lparr>status := CANCELLED\<rparr>
           in case save e (SaveOrder updated) w1 tx1 of
                (w2, Inl err) \<Rightarrow> (w2, Inl err)
              | (w2, Inr tx2) \<Rightarrow>
                  (let (eid, w3) = draw e w2;
                       eventLog = \<lparr>event_id = eid, event_orderId = order_id order,
                                    eventType = ORDER_CANCELLED,
                                    payload = CancelledPayload (clock e)\<rparr>
                   in case save e (SaveEventLog eventLog) w3 tx2 of
                        (w4, Inl err) \<Rightarrow> (w4, Inl err)
                      | (w4, Inr tx3) \<Rightarrow> (w4, Inr (tx3, updated)))))"

text \<open>
  \<^verbatim>\<open>cancelOrder\<close> answers \<^verbatim>\<open>null\<close> for an unknown order, throws for a cancelled one
  and otherwise commits the restored stock, the new status and the event log row
  together. Its reads are taken to return: what is proved of \<^verbatim>\<open>cancelOrder\<close> is about
  a stored order, whose id and whose items' product ids are keys the store holds.
\<close>

definition cancelOrder :: "env \<Rightarrow> string \<Rightarrow> world \<Rightarrow> world \<times> (error + Order option)" where
  "cancelOrder e oid w =
     (let w1 = emit (FindOrder oid) w
      in case find (\<lambda>order. order_id order = oid) (orders (db w)) of
           None \<Rightarrow> (w1, Inr None)
         | Some order \<Rightarrow>
             if status order = CANCELLED then (emit Rollback w1, Inl OrderAlreadyCancelled)
             else (case cancelTx e order w1 (db w) of
                     (w2, Inl err) \<Rightarrow> (emit Rollback w2, Inl err)
                   | (w2, Inr (tx, updated)) \<Rightarrow>
                       ((emit Commit w2)\<lparr>db := tx\<rparr>, Inr (Some updated))))"

section \<open>\<^verbatim>\<open>ProductService.getProductById\<close>\<close>

text \<open>
  The miss branch: read the committed row, which throws when the store refuses the id;
  a missing product is answered with \<^verbatim>\<open>null\<close> and nothing is cached, a found one is
  cached for an hour and returned.
\<close>

definition loadThroughCache :: "env \<Rightarrow> string \<Rightarrow> world \<Rightarrow> world \<times> (error + cached)" where
  "loadThroughCache e pid w =
     (let w1 = emit (FindProduct pid) w
      in case findOne e pid (products (db w) pid) of
           Inl err \<Rightarrow> (w1, Inl err)
         | Inr None \<Rightarrow> (w1, Inr NullValue)
         | Inr (Some product) \<Rightarrow>
             (redis_setEx (PRODUCT_CACHE_PREFIX @ pid) PRODUCT_CACHE_TTL (stringify e product) w1,
              Inr (Snapshot product)))"

text \<open>
  \<^verbatim>\<open>if (cached)\<close> is JavaScript truthiness: a missing key and an empty string both
  count as a miss. \<^verbatim>\<open>JSON.parse\<close> throws on text that is not JSON; whatever it
  yields is returned, the value \<^verbatim>\<open>null\<close> included.
\<close>

definition getProductById :: "env \<Rightarrow> string \<Rightarrow> world \<Rightarrow> world \<times> (error + cached)" where
  "getProductById e pid w =
     (case redis_get (PRODUCT_CACHE_PREFIX @ pid) w of
        (None, w1) \<Rightarrow> loadThroughCache e pid w1
      | (Some cached, w1) \<Rightarrow>
          if cached = [] then loadThroughCache e pid w1
          else (case parse e cached of
                  None \<Rightarrow> (w1, Inl (BadJson cached))
                | Some parsed \<Rightarrow> (w1, Inr parsed)))"

section \<open>The messages of the thrown errors\<close>

text \<open>
  The text each \<^verbatim>\<open>throw new Error(...)\<close> of the two services builds. Errors that come
  from the store, from \<^verbatim>\<open>JSON.parse\<close> or from dereferencing \<^verbatim>\<open>null\<close> carry a text
  of their origin, which is not modelled. A template literal prints a whole number
  digit by digit as long as its magnitude is below \<open>10 ^ 21\<close> and in exponent notation
  from there on; the latter is not modelled either, and no text is given for such
  amounts.
\<close>

definition show_int :: "int \<Rightarrow> string" where
  "show_int i = (if i < 0 then CHR ''-'' # show_nat (nat (- i)) else show_nat (nat i))"

definition printsDigits :: "int \<Rightarrow> bool" where
  "printsDigits i = (\<bar>i\<bar> < 10 ^ 21)"

fun message_of :: "error \<Rightarrow> string option" where
  "message_of UserAbsent = Some ''User not found''"
| "message_of (LockRefused p) =
     Some (''Cannot acquire lock for product '' @ p @ ''. Please try again.'')"
| "message_of (ProductAbsent p) = Some (''Product not found: '' @ p)"
| "message_of (StockShort n a r) =
     (if printsDigits a \<and> printsDigits r
      then Some (''Insufficient stock for '' @ n @ ''. Available: '' @ show_int a @
                 '', Requested: '' @ show_int r)
      else None)"
| "message_of OrderAlreadyCancelled = Some ''Order already cancelled''"
| "message_of (QueryFailed k) = None"
| "message_of (SaveRejected wr) = None"
| "message_of (NullProduct p) = None"
| "message_of (BadJson s) = None"

section \<open>Definitions for the statements\<close>

text \<open>
  Nothing below is part of the services. These definitions say, in terms of the rows
  alone, what the theorems then prove of the code.
\<close>

subsection \<open>Moving stock\<close>

text \<open>
  \<open>reserved q\<close> is a product after \<open>q\<close> units went from \<^verbatim>\<open>stock\<close> to
  \<^verbatim>\<open>reservedStock\<close>, \<open>released q\<close> after they came back. \<open>reservedFor p\<close> adds up
  the lines of a request on product \<open>p\<close>, \<open>restoredFor p\<close> the items of an order on it.
\<close>

definition reserved :: "int \<Rightarrow> Product \<Rightarrow> Product" where
  "reserved q p = p\<lparr>stock := stock p - q, reservedStock := reservedStock p + q\<rparr>"

definition released :: "int \<Rightarrow> Product \<Rightarrow> Product" where
  "released q p = p\<lparr>stock := stock p + q, reservedStock := reservedStock p - q\<rparr>"

definition reservedFor :: "string \<Rightarrow> request_item list \<Rightarrow> int" where
  "reservedFor p its = sum_list (map quantity (filter (\<lambda>i. productId i = p) its))"

definition restoredFor :: "string \<Rightarrow> OrderItem list \<Rightarrow> int" where
  "restoredFor p its = sum_list (map item_quantity (filter (\<lambda>i. item_productId i = p) its))"

definition stockSum :: "Product \<Rightarrow> int" where
  "stockSum p = stock p + reservedStock p"

subsection \<open>The checks of a reservation, in their order\<close>

text \<open>
  \<open>heldLocks w\<close> are the products whose lock key is present in Redis. \<open>reservation\<close>
  goes through the lines of a request and stops at the first one whose lock is held,
  whose product id the store refuses as a key, whose product is missing, whose quantity
  exceeds the stock left, or whose write the store refuses; otherwise it yields the rows
  with every line reserved and the sum of the line prices. \<open>firstFailure\<close> puts the
  read of the user in front.
\<close>

definition heldLocks :: "world \<Rightarrow> string \<Rightarrow> bool" where
  "heldLocks w p = (redis w (STOCK_LOCK_PREFIX @ p) \<noteq> None)"

fun reservation ::
  "env \<Rightarrow> (string \<Rightarrow> bool) \<Rightarrow> request_item list \<Rightarrow> database \<Rightarrow> int \<Rightarrow> error + database \<times> int" where
  "reservation e held [] tx tot = Inr (tx, tot)"
| "reservation e held (item # rest) tx tot =
     (if held (productId item) then Inl (LockRefused (productId item))
      else if refusesKey e (productId item) then Inl (QueryFailed (productId item))
      else case products tx (productId item) of
             None \<Rightarrow> Inl (ProductAbsent (productId item))
           | Some pr \<Rightarrow>
               if stock pr < quantity item
               then Inl (StockShort (name pr) (stock pr) (quantity item))
               else if rejects e (SaveProduct (productId item) (reserved (quantity item) pr))
               then Inl (SaveRejected (SaveProduct (productId item) (reserved (quantity item) pr)))
               else reservation e held rest
                      (tx\<lparr>products := (products tx)(productId item \<mapsto> reserved (quantity item) pr)\<rparr>)
                      (tot + price pr * quantity item))"

definition firstFailure :: "env \<Rightarrow> request \<Rightarrow> world \<Rightarrow> error option" where
  "firstFailure e data w =
     (if refusesKey e (req_userId data) then Some (QueryFailed (req_userId data))
      else if req_userId data \<notin> users (db w) then Some UserAbsent
      else case reservation e (heldLocks w) (items data) (db w) 0 of
             Inl err \<Rightarrow> Some err
           | Inr ok \<Rightarrow> None)"

text \<open>A line asks for more than the rows hold of its product.\<close>

definition exceedsStock :: "database \<Rightarrow> request_item \<Rightarrow> bool" where
  "exceedsStock d item =
     (case products d (productId item) of None \<Rightarrow> False | Some pr \<Rightarrow> stock pr < quantity item)"

subsection \<open>The rows an order consists of\<close>

text \<open>
  The price of one line and of all lines against given product rows; the order item of
  a line; the order items of a request, whose ids are the draws from the \<open>n\<close>-th on;
  the order row, whose reference number uses the \<open>n\<close>-th draw and whose id is the
  next one; and the two event log rows.
\<close>

definition linePrice :: "(string \<rightharpoonup> Product) \<Rightarrow> request_item \<Rightarrow> int" where
  "linePrice ps i = (case ps (productId i) of None \<Rightarrow> 0 | Some pr \<Rightarrow> price pr * quantity i)"

definition linesTotal :: "(string \<rightharpoonup> Product) \<Rightarrow> request_item list \<Rightarrow> int" where
  "linesTotal ps its = sum_list (map (linePrice ps) its)"

definition lineItem :: "string \<Rightarrow> string \<Rightarrow> Product \<Rightarrow> request_item \<Rightarrow> OrderItem" where
  "lineItem iid oid pr it =
     \<lparr>item_id = iid, orderId = oid, item_productId = productId it, item_quantity = quantity it,
      unitPrice = price pr, item_totalPrice = price pr * quantity it\<rparr>"

fun lineItems :: "env \<Rightarrow> string \<Rightarrow> (string \<rightharpoonup> Product) \<Rightarrow> nat \<Rightarrow> request_item list \<Rightarrow> OrderItem list" where
  "lineItems e oid ps n [] = []"
| "lineItems e oid ps n (it # rest) =
     (case ps (productId it) of
        None \<Rightarrow> []
      | Some pr \<Rightarrow> lineItem (uuidv4 e n) oid pr it # lineItems e oid ps (Suc n) rest)"

definition orderOf :: "env \<Rightarrow> request \<Rightarrow> int \<Rightarrow> nat \<Rightarrow> Order" where
  "orderOf e data tot n =
     \<lparr>order_id = uuidv4 e (Suc n), userId = req_userId data, status = PENDING,
      totalPrice = tot,
      referenceNo = ''ORD-'' @ show_nat (clock e) @ ''-'' @ take 8 (uuidv4 e n)\<rparr>"

definition createdLog :: "string \<Rightarrow> string \<Rightarrow> request \<Rightarrow> int \<Rightarrow> EventLog" where
  "createdLog eid oid data tot =
     \<lparr>event_id = eid, event_orderId = oid, eventType = ORDER_CREATED,
      payload = CreatedPayload (items data) tot\<rparr>"

definition cancelledLog :: "string \<Rightarrow> string \<Rightarrow> nat \<Rightarrow> EventLog" where
  "cancelledLog eid oid t =
     \<lparr>event_id = eid, event_orderId = oid, eventType = ORDER_CANCELLED,
      payload = CancelledPayload t\<rparr>"

text \<open>The rows after the cancellation of \<open>order\<close> in world \<open>w\<close>.\<close>

definition cancelledDb :: "env \<Rightarrow> Order \<Rightarrow> world \<Rightarrow> database" where
  "cancelledDb e order w =
     \<lparr>users = users (db w),
      products = (\<lambda>p. map_option (released (restoredFor p (itemsOf (order_id order) (db w))))
                       (products (db w) p)),
      orders = upsert order_id (order\<lparr>status := CANCELLED\<rparr>) (orders (db w)),
      orderItems = orderItems (db w),
      eventLogs = upsert event_id (cancelledLog (uuidv4 e (drawn w)) (order_id order) (clock e))
                    (eventLogs (db w))\<rparr>"

subsection \<open>Counting calls\<close>

text \<open>
  \<open>calls w w'\<close> are the calls made between two worlds of one run; among them the
  reads of the store, the writes of a cached snapshot and the Redis commands.
\<close>

definition calls :: "world \<Rightarrow> world \<Rightarrow> io list" where
  "calls w w' = drop (length (trace w)) (trace w')"

fun is_db_read :: "io \<Rightarrow> bool" where
  "is_db_read (FindUser u) = True"
| "is_db_read (FindProduct p) = True"
| "is_db_read (FindOrder k) = True"
| "is_db_read c = False"

fun is_cache_write :: "io \<Rightarrow> bool" where
  "is_cache_write (RedisSetEx k t v) = True"
| "is_cache_write c = False"

fun is_redis_call :: "io \<Rightarrow> bool" where
  "is_redis_call (RedisSetNX k v t) = True"
| "is_redis_call (RedisSetEx k t v) = True"
| "is_redis_call (RedisGet k) = True"
| "is_redis_call (RedisDel k) = True"
| "is_redis_call c = False"

definition storeReads :: "world \<Rightarrow> world \<Rightarrow> nat" where
  "storeReads w w' = length (filter is_db_read (calls w w'))"

definition cacheWrites :: "world \<Rightarrow> world \<Rightarrow> nat" where
  "cacheWrites w w' = length (filter is_cache_write (calls w w'))"

definition redisCalls :: "world \<Rightarrow> world \<Rightarrow> io list" where
  "redisCalls w w' = filter is_redis_call (calls w w')"

text \<open>The same outcome with the broker's channel set to \<open>c\<close>.\<close>

definition rewire :: "bool \<Rightarrow> world \<times> 'a \<Rightarrow> world \<times> 'a" where
  "rewire c m = (fst m\<lparr>channel := c\<rparr>, snd m)"

section \<open>Two requests that overlap\<close>

text \<open>
  \<^verbatim>\<open>createOrder\<close> deletes the lock of a product in the \<^verbatim>\<open>finally\<close> of the loop turn
  (line 83) and commits its transaction after the loop, the order, the items and the
  event log row (line 129). A second request that arrives in between finds the lock
  free, and what it reads through its own transaction are the committed rows: the
  writes of the first transaction are not committed yet.

  \<open>createOrderTx\<close> is a request up to that point: the world it returns has the locks
  deleted and the committed rows unchanged. \<open>overlapping\<close> lets a second request run
  its own transaction from there and then ends the two in the order they came. A commit
  makes the writes of its transaction the committed values of the rows written;
  \<^verbatim>\<open>save\<close> writes a row with the values the request has computed from what it read. For
  a request that runs alone, the rows so committed are the view its transaction has
  built, which is what \<open>createOrder\<close> commits.
\<close>

fun writesIn :: "io list \<Rightarrow> db_write list" where
  "writesIn [] = []"
| "writesIn (Save wr # cs) = wr # writesIn cs"
| "writesIn (c # cs) = writesIn cs"

definition commitWrites :: "db_write list \<Rightarrow> database \<Rightarrow> database" where
  "commitWrites wrs d = foldl (\<lambda>rows wr. apply_write wr rows) d wrs"

text \<open>
  The end of \<^verbatim>\<open>createOrder\<close> for a transaction that has made the writes \<open>wrs\<close>: the
  \<^verbatim>\<open>catch\<close> that rolls back, or the commit and the publish.
\<close>

definition endOrder ::
  "env \<Rightarrow> request \<Rightarrow> db_write list \<Rightarrow> error + database \<times> Order \<Rightarrow> world \<Rightarrow>
     world \<times> (error + Order)" where
  "endOrder e data wrs r w =
     (case r of
        Inl err \<Rightarrow> (emit Rollback w, Inl err)
      | Inr (tx, savedOrder) \<Rightarrow>
          (let w2 = (emit Commit w)\<lparr>db := commitWrites wrs (db w)\<rparr>;
               (published, w3) = publishToExchange e (orderCreated e data savedOrder) w2
           in (w3, Inr savedOrder)))"

definition overlapping ::
  "env \<Rightarrow> request \<Rightarrow> request \<Rightarrow> world \<Rightarrow> world \<times> (error + Order) \<times> (error + Order)" where
  "overlapping e first second w =
     (case createOrderTx e first w of
        (w1, r1) \<Rightarrow>
          (case createOrderTx e second w1 of
             (w2, r2) \<Rightarrow>
               (case endOrder e first (writesIn (calls w w1)) r1 w2 of
                  (w3, out1) \<Rightarrow>
                    (case endOrder e second (writesIn (calls w1 w2)) r2 w3 of
                       (w4, out2) \<Rightarrow> (w4, out1, out2)))))"

text \<open>
  What the orders hold of a product: the quantities of the order items on it.
\<close>

definition orderedOf :: "string \<Rightarrow> database \<Rightarrow> int" where
  "orderedOf p d = sum_list (map item_quantity (filter (\<lambda>i. item_productId i = p) (orderItems d)))"

text \<open>
  \<open>replays w w' tx tx'\<close>: the run from \<open>w\<close> to \<open>w'\<close> has only added calls, and the
  writes among them take the rows \<open>tx\<close> to the rows \<open>tx'\<close>.
\<close>

definition replays :: "world \<Rightarrow> world \<Rightarrow> database \<Rightarrow> database \<Rightarrow> bool" where
  "replays w w' tx tx' =
     (\<exists>cs. trace w' = trace w @ cs \<and> tx' = commitWrites (writesIn cs) tx)"

section \<open>Concrete worlds for the examples\<close>

text \<open>
  One user, one product with ten in stock, an empty Redis and a broker that is up. The
  \<open>n\<close>-th uuid is \<open>n + 1\<close> letters \<open>u\<close>; the JSON codec knows the one snapshot it
  needs and \<^verbatim>\<open>null\<close>; the store takes any text as a key, as MySQL does, and refuses
  no write.
\<close>

definition widget :: Product where
  "widget = \<lparr>name = ''widget'', price = 250, stock = 10, reservedStock = 0, isActive = True\<rparr>"

definition env0 :: env where
  "env0 = \<lparr>uuidv4 = (\<lambda>n. replicate (Suc n) CHR ''u''), clock = 7,
     stringify = (\<lambda>p. ''{'' @ name p @ ''}''),
     parse = (\<lambda>s. if s = ''{widget}'' then Some (Snapshot widget)
                  else if s = ''null'' then Some NullValue else None),
     refusesKey = (\<lambda>k. False), rejects = (\<lambda>wr. False), brokerRefuses = False\<rparr>"

definition db0 :: database where
  "db0 = \<lparr>users = {''alice''}, products = [''p1'' \<mapsto> widget], orders = [], orderItems = [],
     eventLogs = []\<rparr>"

definition world0 :: world where
  "world0 = \<lparr>db = db0, redis = Map.empty, channel = True, outbox = [], drawn = 0, trace = []\<rparr>"

definition order_of :: "string \<Rightarrow> (string \<times> int) list \<Rightarrow> request" where
  "order_of u lines = \<lparr>req_userId = u, items = map (\<lambda>(p, q). \<lparr>productId = p, quantity = q\<rparr>) lines\<rparr>"

text \<open>The world after \<open>alice\<close> has ordered three widgets in \<open>world0\<close>.\<close>

definition order1 :: Order where
  "order1 = \<lparr>order_id = ''uuu'', userId = ''alice'', status = PENDING, totalPrice = 750,
     referenceNo = ''ORD-7-uu''\<rparr>"

definition db1 :: database where
  "db1 = \<lparr>users = {''alice''},
     products = [''p1'' \<mapsto> widget\<lparr>stock := 7, reservedStock := 3\<rparr>],
     orders = [order1],
     orderItems = [\<lparr>item_id = ''uuuu'', orderId = ''uuu'', item_productId = ''p1'',
        item_quantity = 3, unitPrice = 250, item_totalPrice = 750\<rparr>],
     eventLogs = [\<lparr>event_id = ''uuuuu'', event_orderId = ''uuu'', eventType = ORDER_CREATED,
        payload = CreatedPayload [\<lparr>productId = ''p1'', quantity = 3\<rparr>] 750\<rparr>]\<rparr>"

definition world1 :: world where
  "world1 = \<lparr>db = db1, redis = Map.empty, channel = True, outbox = [], drawn = 5, trace = []\<rparr>"

text \<open>
  A confirmed order with two items, one of them on a product whose row is gone; and
  \<open>world1\<close> with its order already cancelled.
\<close>

definition order9 :: Order where
  "order9 = \<lparr>order_id = ''o9'', userId = ''alice'', status = CONFIRMED, totalPrice = 900,
     referenceNo = ''ORD-1-abcdefgh''\<rparr>"

definition db9 :: database where
  "db9 = \<lparr>users = {''alice''},
     products = [''p1'' \<mapsto> widget\<lparr>stock := 8, reservedStock := 2\<rparr>],
     orders = [order9],
     orderItems =
       [\<lparr>item_id = ''i1'', orderId = ''o9'', item_productId = ''p1'', item_quantity = 2,
          unitPrice = 250, item_totalPrice = 500\<rparr>,
        \<lparr>item_id = ''i2'', orderId = ''o9'', item_productId = ''gone'', item_quantity = 4,
          unitPrice = 100, item_totalPrice = 400\<rparr>],
     eventLogs = []\<rparr>"

definition world9 :: world where
  "world9 = \<lparr>db = db9, redis = Map.empty, channel = True, outbox = [], drawn = 0, trace = []\<rparr>"


text \<open>
  \<open>world0\<close> with the snapshot of the widget cached, with the text \<^verbatim>\<open>null\<close> cached
  in its place, with a broker that refuses, and with the widget's lock held by another
  request.
\<close>

definition cached1 :: world where
  "cached1 = world0\<lparr>redis := [''product:p1'' \<mapsto> \<lparr>rvalue = ''{widget}'', ttl = 1200\<rparr>]\<rparr>"

definition refusing :: env where
  "refusing = env0\<lparr>brokerRefuses := True\<rparr>"

definition locked1 :: world where
  "locked1 = world0\<lparr>redis := [''stock_lock:p1'' \<mapsto> \<lparr>rvalue = ''someone-else'', ttl = 30\<rparr>]\<rparr>"

definition cachedNull :: world where
  "cachedNull = world0\<lparr>redis := [''product:p1'' \<mapsto> \<lparr>rvalue = ''null'', ttl = 1200\<rparr>]\<rparr>"

text \<open>
  A store that takes as a key only a text of the form of a UUID, five groups of 8, 4, 4,
  4 and 12 hexadecimal digits with hyphens between them, and a generator whose first
  thirteen draws are such texts, all different. The user and the product of \<open>world0\<close>
  under keys of that form.
\<close>

definition isHexDigit :: "char \<Rightarrow> bool" where
  "isHexDigit c = (c \<in> set ''0123456789abcdefABCDEF'')"

fun hasGroups :: "nat list \<Rightarrow> string \<Rightarrow> bool" where
  "hasGroups [] s = False"
| "hasGroups [n] s = (length s = n \<and> list_all isHexDigit s)"
| "hasGroups (n # ns) s =
     (length (take n s) = n \<and> list_all isHexDigit (take n s) \<and> take 1 (drop n s) = ''-'' \<and>
      hasGroups ns (drop (Suc n) s))"

definition isUuid :: "string \<Rightarrow> bool" where
  "isUuid s = hasGroups [8, 4, 4, 4, 12] s"

definition uuidNo :: "nat \<Rightarrow> string" where
  "uuidNo n = ''00000000-0000-4000-8000-'' @ replicate (12 - n) CHR ''0'' @ replicate n CHR ''f''"

definition strict :: env where
  "strict = env0\<lparr>uuidv4 := uuidNo, refusesKey := (\<lambda>k. \<not> isUuid k)\<rparr>"

definition aliceId :: string where
  "aliceId = ''a11ce000-0000-4000-8000-0000000000aa''"

definition widgetId :: string where
  "widgetId = ''c0ffee00-0000-4000-8000-0000000000bb''"

definition unusedId :: string where
  "unusedId = ''c0ffee00-0000-4000-8000-0000000000cc''"

definition shop :: world where
  "shop = world0\<lparr>db := db0\<lparr>users := {aliceId}, products := [widgetId \<mapsto> widget]\<rparr>\<rparr>"

text \<open>
  The shop with the widget's lock held by another request, and the latter with no
  product rows.
\<close>

definition lockedShop :: world where
  "lockedShop = shop\<lparr>redis := [''stock_lock:'' @ widgetId \<mapsto> \<lparr>rvalue = ''someone-else'', ttl = 30\<rparr>]\<rparr>"

definition emptyShop :: world where
  "emptyShop = lockedShop\<lparr>db := (db shop)\<lparr>products := Map.empty\<rparr>\<rparr>"

text \<open>An order of six widgets in \<open>world0\<close>.\<close>

definition six :: request where
  "six = order_of ''alice'' [(''p1'', 6)]"

section \<open>Lemmas about the steps\<close>

text \<open>
  Each step of the services threads a world and, inside a transaction, the transaction's
  view of the rows. The lemmas give, step by step, the outcome in closed form, what of
  the world a step leaves alone, and what a sequence of steps that succeeds has done.
\<close>

subsection \<open>One turn of the reservation loop\<close>

lemmas prims = emit_def draw_def redis_set_nx_def redis_del_def redis_get_def redis_setEx_def save_def

lemma lock_key_not_cache_key: "STOCK_LOCK_PREFIX @ a \<noteq> ''product:'' @ b"
  by (simp add: STOCK_LOCK_PREFIX_def)

lemma reserveItem_result:
  "snd (reserveItem e item w tx tot) =
     (if redis w (STOCK_LOCK_PREFIX @ productId item) \<noteq> None
      then Inl (LockRefused (productId item))
      else if refusesKey e (productId item) then Inl (QueryFailed (productId item))
      else case products tx (productId item) of
             None \<Rightarrow> Inl (ProductAbsent (productId item))
           | Some pr \<Rightarrow>
               if stock pr < quantity item
               then Inl (StockShort (name pr) (stock pr) (quantity item))
               else if rejects e (SaveProduct (productId item) (reserved (quantity item) pr))
               then Inl (SaveRejected (SaveProduct (productId item) (reserved (quantity item) pr)))
               else Inr (tx\<lparr>products := (products tx)(productId item \<mapsto> reserved (quantity item) pr)\<rparr>,
                         tot + price pr * quantity item))"
  by (auto simp: reserveItem_def reserveLocked_def findOne_def reserved_def prims Let_def
      split: option.splits prod.splits sum.splits)

lemma reserveItem_world:
  "db (fst (reserveItem e item w tx tot)) = db w"
  "channel (fst (reserveItem e item w tx tot)) = channel w"
  "outbox (fst (reserveItem e item w tx tot)) = outbox w"
  "drawn (fst (reserveItem e item w tx tot)) = Suc (drawn w)"
  by (auto simp: reserveItem_def reserveLocked_def findOne_def prims Let_def
      split: option.splits prod.splits sum.splits)

lemma reserveItem_locks:
  "redis (fst (reserveItem e item w tx tot)) (STOCK_LOCK_PREFIX @ k) = redis w (STOCK_LOCK_PREFIX @ k)"
  using lock_key_not_cache_key
  by (auto simp: reserveItem_def reserveLocked_def findOne_def prims Let_def
      split: option.splits prod.splits sum.splits)

lemma heldLocks_reserveItem: "heldLocks (fst (reserveItem e item w tx tot)) = heldLocks w"
  by (rule ext) (simp add: heldLocks_def reserveItem_locks)

subsection \<open>The reservation loop\<close>

text \<open>
  The loop computes \<open>reservation\<close>: the locks it takes it gives back, and the key of
  a cached snapshot is never the key of a lock.
\<close>

lemma reservation_step:
  "reservation e (heldLocks w) (item # rest) tx tot =
     (case snd (reserveItem e item w tx tot) of
        Inl err \<Rightarrow> Inl err
      | Inr (tx', tot') \<Rightarrow> reservation e (heldLocks w) rest tx' tot')"
proof -
  have hl: "heldLocks w (productId item) = (redis w (STOCK_LOCK_PREFIX @ productId item) \<noteq> None)"
    by (simp add: heldLocks_def)
  show ?thesis
    by (simp add: reserveItem_result hl split: option.splits)
qed

lemma reserveAll_result:
  "snd (reserveAll e its w tx tot) = reservation e (heldLocks w) its tx tot"
proof (induction its arbitrary: w tx tot)
  case Nil
  show ?case by simp
next
  case (Cons item rest)
  obtain w' r where step: "reserveItem e item w tx tot = (w', r)"
    by (cases "reserveItem e item w tx tot")
  have held: "heldLocks w' = heldLocks w"
    using heldLocks_reserveItem [of e item w tx tot] step by simp
  show ?case
  proof (cases r)
    case (Inl err)
    with step show ?thesis
      by (simp add: reservation_step del: reservation.simps)
  next
    case (Inr ok)
    obtain tx' tot' where ok: "ok = (tx', tot')" by (cases ok)
    show ?thesis
      using step Inr ok Cons.IH [of w' tx' tot'] held
      by (simp add: reservation_step del: reservation.simps)
  qed
qed

lemma reserveAll_world:
  "db (fst (reserveAll e its w tx tot)) = db w \<and>
   channel (fst (reserveAll e its w tx tot)) = channel w \<and>
   outbox (fst (reserveAll e its w tx tot)) = outbox w"
proof (induction its arbitrary: w tx tot)
  case Nil
  show ?case by simp
next
  case (Cons item rest)
  obtain w' r where step: "reserveItem e item w tx tot = (w', r)"
    by (cases "reserveItem e item w tx tot")
  have w': "db w' = db w" "channel w' = channel w" "outbox w' = outbox w"
    using reserveItem_world [of e item w tx tot] step by simp_all
  show ?case
  proof (cases r)
    case (Inl err)
    with step w' show ?thesis by simp
  next
    case (Inr ok)
    obtain tx1 tot1 where ok: "ok = (tx1, tot1)" by (cases ok)
    with Inr step w' Cons.IH [of w' tx1 tot1] show ?thesis
      by simp
  qed
qed

lemma reserveAll_drawn:
  "reserveAll e its w tx tot = (w', Inr ok) \<Longrightarrow> drawn w' = drawn w + length its"
proof (induction its arbitrary: w tx tot)
  case Nil
  then show ?case by simp
next
  case (Cons item rest)
  obtain w1 r where step: "reserveItem e item w tx tot = (w1, r)"
    by (cases "reserveItem e item w tx tot")
  then have w1: "drawn w1 = Suc (drawn w)"
    using reserveItem_world(4) [of e item w tx tot] by simp
  from Cons.prems step obtain tx1 tot1 where r: "r = Inr (tx1, tot1)"
    by (cases r) (auto split: prod.splits)
  with Cons.prems step have "reserveAll e rest w1 tx1 tot1 = (w', Inr ok)" by simp
  from Cons.IH [OF this] w1 show ?case by simp
qed

lemma reserved_reserved: "reserved a (reserved b p) = reserved (a + b) p"
  by (simp add: reserved_def)

lemma reserved_zero: "reserved 0 p = p"
  by (simp add: reserved_def)

lemma price_reserved: "price (reserved q p) = price p"
  by (simp add: reserved_def)

lemma linesTotal_cong:
  assumes "\<And>p. map_option price (ps' p) = map_option price (ps p)"
  shows "linesTotal ps' its = linesTotal ps its"
proof -
  have "linePrice ps' i = linePrice ps i" for i
    using assms [of "productId i"]
    by (cases "ps' (productId i)"; cases "ps (productId i)") (simp_all add: linePrice_def)
  then have "linePrice ps' = linePrice ps" by (rule ext)
  then show ?thesis by (simp add: linesTotal_def)
qed

lemma reservation_success:
  "reservation e held its tx tot = Inr (tx', tot') \<Longrightarrow>
     users tx' = users tx \<and> orders tx' = orders tx \<and> orderItems tx' = orderItems tx \<and>
     eventLogs tx' = eventLogs tx \<and>
     (\<forall>p. products tx' p = map_option (reserved (reservedFor p its)) (products tx p)) \<and>
     tot' = tot + linesTotal (products tx) its \<and>
     (\<forall>i \<in> set its. products tx (productId i) \<noteq> None)"
proof (induction its arbitrary: tx tot)
  case Nil
  then show ?case
    by (simp add: reservedFor_def linesTotal_def reserved_zero option.map_ident)
next
  case (Cons item rest)
  from Cons.prems obtain pr where
    pr: "products tx (productId item) = Some pr" and
    rest: "reservation e held rest
             (tx\<lparr>products := (products tx)(productId item \<mapsto> reserved (quantity item) pr)\<rparr>)
             (tot + price pr * quantity item) = Inr (tx', tot')"
    by (auto split: if_splits option.splits)
  let ?tx1 = "tx\<lparr>products := (products tx)(productId item \<mapsto> reserved (quantity item) pr)\<rparr>"
  note ih = Cons.IH [OF rest]
  have prices: "\<And>p. map_option price (products ?tx1 p) = map_option price (products tx p)"
    using pr by (simp add: price_reserved)
  have lt: "linesTotal (products ?tx1) rest = linesTotal (products tx) rest"
    by (rule linesTotal_cong) (rule prices)
  have prod: "\<forall>p. products tx' p = map_option (reserved (reservedFor p (item # rest))) (products tx p)"
  proof
    fix p
    show "products tx' p = map_option (reserved (reservedFor p (item # rest))) (products tx p)"
      using ih pr by (cases "p = productId item")
        (simp_all add: reservedFor_def reserved_reserved add.commute)
  qed
  have t1: "tot' = tot + price pr * quantity item + linesTotal (products ?tx1) rest"
    using ih by blast
  have t2: "linesTotal (products tx) (item # rest) =
      price pr * quantity item + linesTotal (products tx) rest"
    using pr by (simp add: linesTotal_def linePrice_def)
  have tot: "tot' = tot + linesTotal (products tx) (item # rest)"
    unfolding t1 t2 lt by simp
  have ex: "\<forall>i \<in> set (item # rest). products tx (productId i) \<noteq> None"
    using ih pr by (auto split: if_splits)
  from ih prod tot ex show ?case by simp
qed

subsection \<open>Writing the order\<close>

lemma save_world:
  "db (fst (save e wr w tx)) = db w"
  "channel (fst (save e wr w tx)) = channel w"
  "outbox (fst (save e wr w tx)) = outbox w"
  "drawn (fst (save e wr w tx)) = drawn w"
  "redis (fst (save e wr w tx)) = redis w"
  by (simp_all add: prims)

lemma createOrderItem_world:
  "db (fst (createOrderItem e ord item w tx)) = db w"
  "channel (fst (createOrderItem e ord item w tx)) = channel w"
  "outbox (fst (createOrderItem e ord item w tx)) = outbox w"
  by (simp_all add: createOrderItem_def findOne_def prims Let_def split: option.splits)

lemma createOrderItem_drawn:
  "\<not> refusesKey e (productId item) \<Longrightarrow>
     drawn (fst (createOrderItem e ord item w tx)) = Suc (drawn w)"
  by (simp add: createOrderItem_def findOne_def prims Let_def split: option.splits)

lemma createOrderItems_world:
  "db (fst (createOrderItems e ord its w tx)) = db w \<and>
   channel (fst (createOrderItems e ord its w tx)) = channel w \<and>
   outbox (fst (createOrderItems e ord its w tx)) = outbox w"
proof (induction its arbitrary: w tx)
  case Nil
  show ?case by simp
next
  case (Cons item rest)
  obtain w' r where step: "createOrderItem e ord item w tx = (w', r)"
    by (cases "createOrderItem e ord item w tx")
  have w': "db w' = db w" "channel w' = channel w" "outbox w' = outbox w"
    using createOrderItem_world [of e ord item w tx] step by simp_all
  show ?case
  proof (cases r)
    case (Inl err)
    with step w' show ?thesis by simp
  next
    case (Inr tx1)
    with step w' Cons.IH [of w' tx1] show ?thesis by simp
  qed
qed

lemma save_Inr:
  "save e wr w tx = (w', Inr tx') \<Longrightarrow> \<not> rejects e wr \<and> tx' = apply_write wr tx \<and> w' = emit (Save wr) w"
  by (auto simp: save_def split: if_splits)

lemma save_Inl:
  "save e wr w tx = (w', Inl err) \<Longrightarrow> err = SaveRejected wr \<and> w' = emit (Save wr) w"
  by (auto simp: save_def split: if_splits)

lemma createOrderItem_result:
  "snd (createOrderItem e ord item w tx) =
     (if refusesKey e (productId item) then Inl (QueryFailed (productId item))
      else case products tx (productId item) of
        None \<Rightarrow> Inl (NullProduct (productId item))
      | Some pr \<Rightarrow>
          if rejects e (SaveOrderItem (lineItem (uuidv4 e (drawn w)) (order_id ord) pr item))
          then Inl (SaveRejected (SaveOrderItem (lineItem (uuidv4 e (drawn w)) (order_id ord) pr item)))
          else Inr (tx\<lparr>orderItems :=
                 upsert item_id (lineItem (uuidv4 e (drawn w)) (order_id ord) pr item) (orderItems tx)\<rparr>))"
  by (simp add: createOrderItem_def findOne_def lineItem_def prims Let_def split: option.splits)

lemma createOrderItems_Inl:
  "createOrderItems e ord its w tx = (w', Inl err) \<Longrightarrow> kind err = Internal"
proof (induction its arbitrary: w tx)
  case Nil
  then show ?case by simp
next
  case (Cons item rest)
  obtain w1 r where step: "createOrderItem e ord item w tx = (w1, r)"
    by (cases "createOrderItem e ord item w tx")
  then have r: "r = snd (createOrderItem e ord item w tx)" by simp
  show ?case
  proof (cases r)
    case (Inl err1)
    with Cons.prems step have "err = err1" by simp
    moreover have "kind err1 = Internal"
      using Inl r by (auto simp: createOrderItem_result split: option.splits if_splits)
    ultimately show ?thesis by simp
  next
    case (Inr tx1)
    with Cons.prems step have "createOrderItems e ord rest w1 tx1 = (w', Inl err)" by simp
    then show ?thesis by (rule Cons.IH)
  qed
qed

lemma createOrderItems_Inr:
  "createOrderItems e ord its w tx = (w', Inr tx') \<Longrightarrow>
     users tx' = users tx \<and> products tx' = products tx \<and> orders tx' = orders tx \<and>
     eventLogs tx' = eventLogs tx \<and> drawn w' = drawn w + length its \<and>
     length (lineItems e (order_id ord) (products tx) (drawn w) its) = length its \<and>
     orderItems tx' =
       foldl (\<lambda>xs i. upsert item_id i xs) (orderItems tx)
         (lineItems e (order_id ord) (products tx) (drawn w) its)"
proof (induction its arbitrary: w tx)
  case Nil
  then show ?case by simp
next
  case (Cons item rest)
  obtain w1 r where step: "createOrderItem e ord item w tx = (w1, r)"
    by (cases "createOrderItem e ord item w tx")
  then have r: "r = snd (createOrderItem e ord item w tx)" by simp
  from Cons.prems step obtain tx1 where r1: "r = Inr tx1"
    by (cases r) auto
  with Cons.prems step have rest: "createOrderItems e ord rest w1 tx1 = (w', Inr tx')" by simp
  from r r1 have taken: "\<not> refusesKey e (productId item)"
    by (auto simp: createOrderItem_result split: if_splits)
  have d1: "drawn w1 = Suc (drawn w)"
    using createOrderItem_drawn [OF taken, of ord w tx] step by simp
  from r r1 obtain pr where
    pr: "products tx (productId item) = Some pr" and
    tx1: "tx1 = tx\<lparr>orderItems :=
            upsert item_id (lineItem (uuidv4 e (drawn w)) (order_id ord) pr item) (orderItems tx)\<rparr>"
    by (auto simp: createOrderItem_result split: option.splits if_splits)
  have p1: "products tx1 = products tx" using tx1 by simp
  from Cons.IH [OF rest] show ?case
    using pr d1 p1 tx1 by simp
qed

lemma persistOrder_unfold:
  "persistOrder e data tot w tx =
     (case save e (SaveOrder (orderOf e data tot (drawn w))) (w\<lparr>drawn := Suc (Suc (drawn w))\<rparr>) tx of
        (w3, Inl err) \<Rightarrow> (w3, Inl err)
      | (w3, Inr tx1) \<Rightarrow>
          (case createOrderItems e (orderOf e data tot (drawn w)) (items data) w3 tx1 of
             (w4, Inl err) \<Rightarrow> (w4, Inl err)
           | (w4, Inr tx2) \<Rightarrow>
               (case save e (SaveEventLog
                        (createdLog (uuidv4 e (drawn w4)) (order_id (orderOf e data tot (drawn w))) data tot))
                      (w4\<lparr>drawn := Suc (drawn w4)\<rparr>) tx2 of
                  (w6, Inl err) \<Rightarrow> (w6, Inl err)
                | (w6, Inr tx3) \<Rightarrow> (w6, Inr (tx3, orderOf e data tot (drawn w))))))"
  by (simp add: persistOrder_def draw_def orderOf_def createdLog_def Let_def
      cong: prod.case_cong sum.case_cong)

lemma persistOrder_world:
  "db (fst (persistOrder e data tot w tx)) = db w \<and>
   channel (fst (persistOrder e data tot w tx)) = channel w \<and>
   outbox (fst (persistOrder e data tot w tx)) = outbox w"
  by (simp add: persistOrder_unfold case_prod_beta save_world
      createOrderItems_world split: sum.split)

lemma createOrderTx_world:
  "db (fst (createOrderTx e data w)) = db w \<and>
   channel (fst (createOrderTx e data w)) = channel w \<and>
   outbox (fst (createOrderTx e data w)) = outbox w"
  by (simp add: createOrderTx_def findOne_def Let_def case_prod_beta emit_def
      reserveAll_world persistOrder_world split: sum.split)

subsection \<open>Sequences of steps that may throw\<close>

lemma seq_InrE:
  assumes "(case m of (w, Inl err) \<Rightarrow> (w, Inl err) | (w, Inr x) \<Rightarrow> f w x) = (w', Inr y)"
  obtains w1 x where "m = (w1, Inr x)" and "f w1 x = (w', Inr y)"
proof (cases m)
  case (Pair w1 r)
  show thesis
  proof (cases r)
    case (Inl err)
    with Pair assms show thesis by simp
  next
    case (Inr x)
    with Pair assms that show thesis by simp
  qed
qed

lemma seq_InlE:
  assumes "(case m of (w, Inl err) \<Rightarrow> (w, Inl err) | (w, Inr x) \<Rightarrow> f w x) = (w', Inl err)"
  obtains (first) "m = (w', Inl err)"
        | (later) w1 x where "m = (w1, Inr x)" and "f w1 x = (w', Inl err)"
proof (cases m)
  case (Pair w1 r)
  show thesis
  proof (cases r)
    case (Inl err1)
    with Pair assms first show thesis by simp
  next
    case (Inr x)
    with Pair assms later show thesis by simp
  qed
qed

lemma persistOrder_Inl:
  assumes "persistOrder e data tot w tx = (w', Inl err)"
  shows "kind err = Internal"
  using assms [unfolded persistOrder_unfold]
proof (cases rule: seq_InlE)
  case first
  from save_Inl [OF this] show ?thesis by simp
next
  case (later w3 tx1)
  from later(2) show ?thesis
  proof (cases rule: seq_InlE)
    case first
    from createOrderItems_Inl [OF this] show ?thesis .
  next
    case (later w4 tx2)
    from later(2) show ?thesis
    proof (cases rule: seq_InlE)
      case first
      from save_Inl [OF this] show ?thesis by simp
    next
      case (later w6 tx3)
      then show ?thesis by simp
    qed
  qed
qed

lemma persistOrder_Inr:
  assumes "persistOrder e data tot w tx = (w', Inr (tx', ord))"
  shows "ord = orderOf e data tot (drawn w)"
    and "users tx' = users tx"
    and "products tx' = products tx"
    and "orders tx' = upsert order_id ord (orders tx)"
    and "orderItems tx' =
       foldl (\<lambda>xs i. upsert item_id i xs) (orderItems tx)
         (lineItems e (order_id ord) (products tx) (Suc (Suc (drawn w))) (items data))"
    and "length (lineItems e (order_id ord) (products tx) (Suc (Suc (drawn w))) (items data)) =
           length (items data)"
    and "eventLogs tx' =
       upsert event_id
         (createdLog (uuidv4 e (Suc (Suc (drawn w)) + length (items data))) (order_id ord) data tot)
         (eventLogs tx)"
proof -
  let ?ord = "orderOf e data tot (drawn w)"
  from assms [unfolded persistOrder_unfold] obtain w3 tx1 where
    s1: "save e (SaveOrder ?ord) (w\<lparr>drawn := Suc (Suc (drawn w))\<rparr>) tx = (w3, Inr tx1)" and
    r1: "(case createOrderItems e ?ord (items data) w3 tx1 of
             (w4, Inl err) \<Rightarrow> (w4, Inl err)
           | (w4, Inr tx2) \<Rightarrow>
               (case save e (SaveEventLog
                        (createdLog (uuidv4 e (drawn w4)) (order_id ?ord) data tot))
                      (w4\<lparr>drawn := Suc (drawn w4)\<rparr>) tx2 of
                  (w6, Inl err) \<Rightarrow> (w6, Inl err)
                | (w6, Inr tx3) \<Rightarrow> (w6, Inr (tx3, ?ord)))) = (w', Inr (tx', ord))"
    by (rule seq_InrE)
  from r1 obtain w4 tx2 where
    s2: "createOrderItems e ?ord (items data) w3 tx1 = (w4, Inr tx2)" and
    r2: "(case save e (SaveEventLog
                        (createdLog (uuidv4 e (drawn w4)) (order_id ?ord) data tot))
                      (w4\<lparr>drawn := Suc (drawn w4)\<rparr>) tx2 of
                  (w6, Inl err) \<Rightarrow> (w6, Inl err)
                | (w6, Inr tx3) \<Rightarrow> (w6, Inr (tx3, ?ord))) = (w', Inr (tx', ord))"
    by (rule seq_InrE)
  from r2 obtain w6 tx3 where
    s3: "save e (SaveEventLog (createdLog (uuidv4 e (drawn w4)) (order_id ?ord) data tot))
           (w4\<lparr>drawn := Suc (drawn w4)\<rparr>) tx2 = (w6, Inr tx3)" and
    r3: "(w6, Inr (tx3, ?ord)) = (w', Inr (tx', ord) :: error + database \<times> Order)"
    by (rule seq_InrE)
  from r3 have o: "ord = ?ord" and t3: "tx3 = tx'" by simp_all
  from save_Inr [OF s1] have tx1: "tx1 = apply_write (SaveOrder ?ord) tx"
    and w3: "drawn w3 = Suc (Suc (drawn w))" by (simp_all add: emit_def)
  note c = createOrderItems_Inr [OF s2]
  from save_Inr [OF s3] t3 have tx': "tx' = apply_write (SaveEventLog
      (createdLog (uuidv4 e (drawn w4)) (order_id ?ord) data tot)) tx2" by simp
  show "ord = orderOf e data tot (drawn w)" by (rule o)
  show "users tx' = users tx" using tx' c tx1 by simp
  show "products tx' = products tx" using tx' c tx1 by simp
  show "orders tx' = upsert order_id ord (orders tx)" using tx' c tx1 o by simp
  show "orderItems tx' =
       foldl (\<lambda>xs i. upsert item_id i xs) (orderItems tx)
         (lineItems e (order_id ord) (products tx) (Suc (Suc (drawn w))) (items data))"
    using tx' c tx1 o w3 by simp
  show "length (lineItems e (order_id ord) (products tx) (Suc (Suc (drawn w))) (items data)) =
           length (items data)"
    using c tx1 o w3 by simp
  show "eventLogs tx' =
       upsert event_id
         (createdLog (uuidv4 e (Suc (Suc (drawn w)) + length (items data))) (order_id ord) data tot)
         (eventLogs tx)"
    using tx' c tx1 o w3 by simp
qed

lemma heldLocks_emit: "heldLocks (emit c w) = heldLocks w"
  by (rule ext) (simp add: heldLocks_def emit_def)

lemma createOrderTx_Inr:
  assumes "createOrderTx e data w = (w', Inr (tx', ord))"
  obtains txr tot where
    "\<not> refusesKey e (req_userId data)"
    "req_userId data \<in> users (db w)"
    "reservation e (heldLocks w) (items data) (db w) 0 = Inr (txr, tot)"
    "ord = orderOf e data tot (drawn w + length (items data))"
    "users tx' = users txr" "products tx' = products txr"
    "orders tx' = upsert order_id ord (orders txr)"
    "orderItems tx' =
       foldl (\<lambda>xs i. upsert item_id i xs) (orderItems txr)
         (lineItems e (order_id ord) (products txr) (Suc (Suc (drawn w + length (items data)))) (items data))"
    "eventLogs tx' =
       upsert event_id
         (createdLog (uuidv4 e (Suc (Suc (drawn w + length (items data))) + length (items data))) (order_id ord) data tot)
         (eventLogs txr)"
proof -
  let ?w1 = "emit (FindUser (req_userId data)) w"
  from assms have k: "\<not> refusesKey e (req_userId data)"
    by (auto simp: createOrderTx_def findOne_def Let_def split: if_splits)
  from assms k have u: "req_userId data \<in> users (db w)"
    by (auto simp: createOrderTx_def findOne_def Let_def split: if_splits)
  with assms k obtain w2 txr tot where
    r: "reserveAll e (items data) ?w1 (db w) 0 = (w2, Inr (txr, tot))" and
    p: "persistOrder e data tot w2 txr = (w', Inr (tx', ord))"
    by (auto simp: createOrderTx_def findOne_def Let_def split: prod.splits sum.splits)
  have res: "reservation e (heldLocks w) (items data) (db w) 0 = Inr (txr, tot)"
    using reserveAll_result [of e "items data" ?w1 "db w" 0] r by (simp add: heldLocks_emit)
  have d: "drawn w2 = drawn w + length (items data)"
    using reserveAll_drawn [OF r] by (simp add: emit_def)
  note q = persistOrder_Inr [OF p]
  show thesis
    by (rule that [OF k u res]) (use q d in simp_all)
qed

lemma createOrderTx_known:
  "\<not> refusesKey e (req_userId data) \<Longrightarrow> req_userId data \<in> users (db w) \<Longrightarrow>
     createOrderTx e data w =
       (case reserveAll e (items data) (emit (FindUser (req_userId data)) w) (db w) 0 of
          (w2, Inl err) \<Rightarrow> (w2, Inl err)
        | (w2, Inr (tx, tot)) \<Rightarrow> persistOrder e data tot w2 tx)"
  by (simp add: createOrderTx_def findOne_def Let_def)

lemma createOrderTx_unknown:
  "refusesKey e (req_userId data) \<Longrightarrow>
     createOrderTx e data w =
       (emit (FindUser (req_userId data)) w, Inl (QueryFailed (req_userId data)))"
  "\<not> refusesKey e (req_userId data) \<Longrightarrow> req_userId data \<notin> users (db w) \<Longrightarrow>
     createOrderTx e data w = (emit (FindUser (req_userId data)) w, Inl UserAbsent)"
  by (simp_all add: createOrderTx_def findOne_def Let_def)

lemma createOrderTx_Inl:
  assumes "createOrderTx e data w = (w', Inl err)"
  shows "(refusesKey e (req_userId data) \<and> err = QueryFailed (req_userId data)) \<or>
         (\<not> refusesKey e (req_userId data) \<and> req_userId data \<notin> users (db w) \<and>
            err = UserAbsent) \<or>
         (\<not> refusesKey e (req_userId data) \<and> req_userId data \<in> users (db w) \<and>
            reservation e (heldLocks w) (items data) (db w) 0 = Inl err) \<or>
         (\<not> refusesKey e (req_userId data) \<and> req_userId data \<in> users (db w) \<and>
            kind err = Internal \<and>
            \<not> isl (reservation e (heldLocks w) (items data) (db w) 0))"
proof (cases "\<not> refusesKey e (req_userId data) \<and> req_userId data \<in> users (db w)")
  case False
  with assms show ?thesis
    by (cases "refusesKey e (req_userId data)") (auto simp: createOrderTx_unknown)
next
  case True
  note known = createOrderTx_known [of e data w]
  let ?w1 = "emit (FindUser (req_userId data)) w"
  obtain w2 r where r: "reserveAll e (items data) ?w1 (db w) 0 = (w2, r)"
    by (cases "reserveAll e (items data) ?w1 (db w) 0")
  have res: "reservation e (heldLocks w) (items data) (db w) 0 = r"
    using reserveAll_result [of e "items data" ?w1 "db w" 0] r by (simp add: heldLocks_emit)
  show ?thesis
  proof (cases r)
    case (Inl err1)
    with assms True r have "err = err1" by (simp add: known)
    with True res Inl show ?thesis by simp
  next
    case (Inr ok)
    obtain txr tot where ok: "ok = (txr, tot)" by (cases ok)
    with assms True r Inr have "persistOrder e data tot w2 txr = (w', Inl err)"
      by (simp add: known)
    from persistOrder_Inl [OF this] True res Inr show ?thesis by simp
  qed
qed

subsection \<open>The restore loop and the cancellation\<close>

lemma released_released: "released a (released b p) = released (a + b) p"
  by (simp add: released_def)

lemma released_zero: "released 0 p = p"
  by (simp add: released_def)

lemma restoreItem_result:
  "snd (restoreItem e item w tx) =
     (case products tx (item_productId item) of
        None \<Rightarrow> Inr tx
      | Some pr \<Rightarrow>
          if rejects e (SaveProduct (item_productId item) (released (item_quantity item) pr))
          then Inl (SaveRejected (SaveProduct (item_productId item) (released (item_quantity item) pr)))
          else Inr (tx\<lparr>products :=
                 (products tx)(item_productId item \<mapsto> released (item_quantity item) pr)\<rparr>))"
  by (simp add: restoreItem_def released_def prims Let_def split: option.splits)

lemma restoreItem_world:
  "db (fst (restoreItem e item w tx)) = db w"
  "channel (fst (restoreItem e item w tx)) = channel w"
  "outbox (fst (restoreItem e item w tx)) = outbox w"
  "drawn (fst (restoreItem e item w tx)) = drawn w"
  by (simp_all add: restoreItem_def prims Let_def split: option.splits)

lemma restoreAll_world:
  "db (fst (restoreAll e its w tx)) = db w \<and>
   channel (fst (restoreAll e its w tx)) = channel w \<and>
   outbox (fst (restoreAll e its w tx)) = outbox w \<and>
   drawn (fst (restoreAll e its w tx)) = drawn w"
proof (induction its arbitrary: w tx)
  case Nil
  show ?case by simp
next
  case (Cons item rest)
  obtain w' r where step: "restoreItem e item w tx = (w', r)"
    by (cases "restoreItem e item w tx")
  have w': "db w' = db w" "channel w' = channel w" "outbox w' = outbox w" "drawn w' = drawn w"
    using restoreItem_world [of e item w tx] step by simp_all
  show ?case
  proof (cases r)
    case (Inl err)
    with step w' show ?thesis by simp
  next
    case (Inr tx1)
    with step w' Cons.IH [of w' tx1] show ?thesis by simp
  qed
qed

lemma restoreAll_Inl:
  "restoreAll e its w tx = (w', Inl err) \<Longrightarrow> kind err = Internal \<and> (\<exists>wr. rejects e wr)"
proof (induction its arbitrary: w tx)
  case Nil
  then show ?case by simp
next
  case (Cons item rest)
  obtain w1 r where step: "restoreItem e item w tx = (w1, r)"
    by (cases "restoreItem e item w tx")
  then have r: "r = snd (restoreItem e item w tx)" by simp
  show ?case
  proof (cases r)
    case (Inl err1)
    with Cons.prems step have "err = err1" by simp
    moreover have "kind err1 = Internal \<and> (\<exists>wr. rejects e wr)"
      using Inl r by (auto simp: restoreItem_result split: option.splits if_splits)
    ultimately show ?thesis by simp
  next
    case (Inr tx1)
    with Cons.prems step have "restoreAll e rest w1 tx1 = (w', Inl err)" by simp
    then show ?thesis by (rule Cons.IH)
  qed
qed

lemma restoreAll_Inr:
  "restoreAll e its w tx = (w', Inr tx') \<Longrightarrow>
     users tx' = users tx \<and> orders tx' = orders tx \<and> orderItems tx' = orderItems tx \<and>
     eventLogs tx' = eventLogs tx \<and>
     (\<forall>p. products tx' p = map_option (released (restoredFor p its)) (products tx p))"
proof (induction its arbitrary: w tx)
  case Nil
  then show ?case by (simp add: restoredFor_def released_zero option.map_ident)
next
  case (Cons item rest)
  obtain w1 r where step: "restoreItem e item w tx = (w1, r)"
    by (cases "restoreItem e item w tx")
  then have r: "r = snd (restoreItem e item w tx)" by simp
  from Cons.prems step obtain tx1 where r1: "r = Inr tx1"
    by (cases r) auto
  with Cons.prems step have rest: "restoreAll e rest w1 tx1 = (w', Inr tx')" by simp
  note ih = Cons.IH [OF rest]
  show ?case
  proof (cases "products tx (item_productId item)")
    case None
    with r r1 have tx1: "tx1 = tx" by (simp add: restoreItem_result)
    have "\<forall>p. products tx' p = map_option (released (restoredFor p (item # rest))) (products tx p)"
    proof
      fix p
      show "products tx' p = map_option (released (restoredFor p (item # rest))) (products tx p)"
        using ih tx1 None by (cases "p = item_productId item") (simp_all add: restoredFor_def)
    qed
    with ih tx1 show ?thesis by simp
  next
    case (Some pr)
    with r r1 have tx1: "tx1 = tx\<lparr>products :=
        (products tx)(item_productId item \<mapsto> released (item_quantity item) pr)\<rparr>"
      by (simp add: restoreItem_result split: if_splits)
    have "\<forall>p. products tx' p = map_option (released (restoredFor p (item # rest))) (products tx p)"
    proof
      fix p
      show "products tx' p = map_option (released (restoredFor p (item # rest))) (products tx p)"
        using ih tx1 Some by (cases "p = item_productId item")
          (simp_all add: restoredFor_def released_released add.commute)
    qed
    with ih tx1 show ?thesis by simp
  qed
qed

lemma cancelTx_unfold:
  "cancelTx e order w tx =
     (case restoreAll e (itemsOf (order_id order) tx) w tx of
        (w1, Inl err) \<Rightarrow> (w1, Inl err)
      | (w1, Inr tx1) \<Rightarrow>
          (case save e (SaveOrder (order\<lparr>status := CANCELLED\<rparr>)) w1 tx1 of
             (w2, Inl err) \<Rightarrow> (w2, Inl err)
           | (w2, Inr tx2) \<Rightarrow>
               (case save e (SaveEventLog (cancelledLog (uuidv4 e (drawn w2)) (order_id order) (clock e)))
                      (w2\<lparr>drawn := Suc (drawn w2)\<rparr>) tx2 of
                  (w4, Inl err) \<Rightarrow> (w4, Inl err)
                | (w4, Inr tx3) \<Rightarrow> (w4, Inr (tx3, order\<lparr>status := CANCELLED\<rparr>)))))"
  by (simp add: cancelTx_def draw_def cancelledLog_def Let_def
      cong: prod.case_cong sum.case_cong)

lemma cancelTx_world:
  "db (fst (cancelTx e order w tx)) = db w \<and>
   channel (fst (cancelTx e order w tx)) = channel w \<and>
   outbox (fst (cancelTx e order w tx)) = outbox w"
  by (simp add: cancelTx_unfold case_prod_beta save_world restoreAll_world split: sum.split)

lemma cancelTx_Inl:
  assumes "cancelTx e order w tx = (w', Inl err)"
  shows "kind err = Internal \<and> (\<exists>wr. rejects e wr)"
  using assms [unfolded cancelTx_unfold]
proof (cases rule: seq_InlE)
  case first
  from restoreAll_Inl [OF this] show ?thesis .
next
  case (later w1 tx1)
  from later(2) show ?thesis
  proof (cases rule: seq_InlE)
    case first
    then show ?thesis by (auto simp: save_def split: if_splits)
  next
    case (later w2 tx2)
    from later(2) show ?thesis
    proof (cases rule: seq_InlE)
      case first
      then show ?thesis by (auto simp: save_def split: if_splits)
    next
      case (later w4 tx3)
      then show ?thesis by simp
    qed
  qed
qed

lemma cancelTx_Inr:
  assumes "cancelTx e order w (db w) = (w', Inr (tx', upd))"
  shows "upd = order\<lparr>status := CANCELLED\<rparr>" and "tx' = cancelledDb e order w"
proof -
  let ?upd = "order\<lparr>status := CANCELLED\<rparr>"
  from assms [unfolded cancelTx_unfold] obtain w1 tx1 where
    s1: "restoreAll e (itemsOf (order_id order) (db w)) w (db w) = (w1, Inr tx1)" and
    r1: "(case save e (SaveOrder ?upd) w1 tx1 of
             (w2, Inl err) \<Rightarrow> (w2, Inl err)
           | (w2, Inr tx2) \<Rightarrow>
               (case save e (SaveEventLog (cancelledLog (uuidv4 e (drawn w2)) (order_id order) (clock e)))
                      (w2\<lparr>drawn := Suc (drawn w2)\<rparr>) tx2 of
                  (w4, Inl err) \<Rightarrow> (w4, Inl err)
                | (w4, Inr tx3) \<Rightarrow> (w4, Inr (tx3, ?upd)))) = (w', Inr (tx', upd))"
    by (rule seq_InrE)
  from r1 obtain w2 tx2 where
    s2: "save e (SaveOrder ?upd) w1 tx1 = (w2, Inr tx2)" and
    r2: "(case save e (SaveEventLog (cancelledLog (uuidv4 e (drawn w2)) (order_id order) (clock e)))
                      (w2\<lparr>drawn := Suc (drawn w2)\<rparr>) tx2 of
                  (w4, Inl err) \<Rightarrow> (w4, Inl err)
                | (w4, Inr tx3) \<Rightarrow> (w4, Inr (tx3, ?upd))) = (w', Inr (tx', upd))"
    by (rule seq_InrE)
  from r2 obtain w4 tx3 where
    s3: "save e (SaveEventLog (cancelledLog (uuidv4 e (drawn w2)) (order_id order) (clock e)))
           (w2\<lparr>drawn := Suc (drawn w2)\<rparr>) tx2 = (w4, Inr tx3)" and
    r3: "(w4, Inr (tx3, ?upd)) = (w', Inr (tx', upd) :: error + database \<times> Order)"
    by (rule seq_InrE)
  from r3 show u: "upd = ?upd" by simp
  from r3 have t3: "tx3 = tx'" by simp
  have d1: "drawn w1 = drawn w"
    using restoreAll_world [of e "itemsOf (order_id order) (db w)" w "db w"] s1 by simp
  from save_Inr [OF s2] have tx2: "tx2 = apply_write (SaveOrder ?upd) tx1"
    and d2: "drawn w2 = drawn w1" by (simp_all add: emit_def)
  from save_Inr [OF s3] t3 have tx': "tx' = apply_write (SaveEventLog
      (cancelledLog (uuidv4 e (drawn w2)) (order_id order) (clock e))) tx2" by simp
  note c = restoreAll_Inr [OF s1]
  have "products tx' = products (cancelledDb e order w)"
    using tx' tx2 c by (auto simp: cancelledDb_def)
  moreover have "users tx' = users (cancelledDb e order w)"
    "orders tx' = orders (cancelledDb e order w)"
    "orderItems tx' = orderItems (cancelledDb e order w)"
    "eventLogs tx' = eventLogs (cancelledDb e order w)"
    using tx' tx2 c d1 d2 by (simp_all add: cancelledDb_def)
  ultimately show "tx' = cancelledDb e order w" by simp
qed

lemma find_upsert_same:
  "find (\<lambda>x. key x = key r) (upsert key r xs) = Some r"
  by (induction xs) auto

lemma upsert_fresh: "key r \<notin> key ` set xs \<Longrightarrow> upsert key r xs = xs @ [r]"
  by (induction xs) auto

lemma set_upsert: "r \<in> set (upsert key r xs)"
  by (induction xs) auto

subsection \<open>The two operations as a whole\<close>

lemma stockSum_reserved: "stockSum (reserved q p) = stockSum p"
  by (simp add: stockSum_def reserved_def)

lemma stockSum_released: "stockSum (released q p) = stockSum p"
  by (simp add: stockSum_def released_def)

lemma createOrder_Inl_db:
  "isl (snd (createOrder e data w)) \<Longrightarrow> db (fst (createOrder e data w)) = db w"
  by (simp add: createOrder_def Let_def case_prod_beta emit_def createOrderTx_world
      split: sum.splits)

lemma publishToExchange_db: "db (snd (publishToExchange e m w)) = db w"
  by (simp add: publishToExchange_def emit_def)

lemma createOrder_Inr:
  assumes "snd (createOrder e data w) = Inr ord"
  obtains w1 where "createOrderTx e data w = (w1, Inr (db (fst (createOrder e data w)), ord))"
proof (cases "createOrderTx e data w")
  case (Pair w1 r)
  show thesis
  proof (cases r)
    case (Inl err)
    with Pair assms show thesis by (simp add: createOrder_def)
  next
    case (Inr ok)
    obtain tx ord' where ok: "ok = (tx, ord')" by (cases ok)
    with Pair Inr assms have "ord' = ord"
      by (simp add: createOrder_def Let_def case_prod_beta)
    moreover from Pair Inr ok have "db (fst (createOrder e data w)) = tx"
      by (simp add: createOrder_def Let_def case_prod_beta publishToExchange_db)
    ultimately show thesis using that Pair Inr ok by simp
  qed
qed

lemma createOrder_products:
  assumes "snd (createOrder e data w) = Inr ord"
  shows "products (db (fst (createOrder e data w))) p =
           map_option (reserved (reservedFor p (items data))) (products (db w) p)"
proof -
  from assms obtain w1 where
    tx: "createOrderTx e data w = (w1, Inr (db (fst (createOrder e data w)), ord))"
    by (rule createOrder_Inr)
  from tx obtain txr tot where
    res: "reservation e (heldLocks w) (items data) (db w) 0 = Inr (txr, tot)" and
    p: "products (db (fst (createOrder e data w))) = products txr"
    by (rule createOrderTx_Inr)
  from reservation_success [OF res] p show ?thesis by simp
qed

lemma cancelOrder_unknown:
  "find (\<lambda>order. order_id order = oid) (orders (db w)) = None \<Longrightarrow>
     cancelOrder e oid w = (emit (FindOrder oid) w, Inr None)"
  by (simp add: cancelOrder_def)

lemma cancelOrder_cancelled:
  "find (\<lambda>order. order_id order = oid) (orders (db w)) = Some order \<Longrightarrow> status order = CANCELLED \<Longrightarrow>
     cancelOrder e oid w = (emit Rollback (emit (FindOrder oid) w), Inl OrderAlreadyCancelled)"
  by (simp add: cancelOrder_def)

lemma cancelTx_emit:
  "cancelTx e order (emit c w) (db w) = (w', Inr (tx', upd)) \<Longrightarrow>
     upd = order\<lparr>status := CANCELLED\<rparr> \<and> tx' = cancelledDb e order w"
  using cancelTx_Inr [of e order "emit c w" w' tx' upd]
  by (simp add: emit_def cancelledDb_def)

lemma cancelOrder_active:
  assumes f: "find (\<lambda>order. order_id order = oid) (orders (db w)) = Some order"
    and s: "status order \<noteq> CANCELLED"
  shows "(isl (snd (cancelOrder e oid w)) \<and> db (fst (cancelOrder e oid w)) = db w \<and> (\<exists>wr. rejects e wr)) \<or>
         (snd (cancelOrder e oid w) = Inr (Some (order\<lparr>status := CANCELLED\<rparr>)) \<and>
          db (fst (cancelOrder e oid w)) = cancelledDb e order w \<and>
          last (trace (fst (cancelOrder e oid w))) = Commit)"
proof -
  let ?w1 = "emit (FindOrder oid) w"
  obtain w2 r where c: "cancelTx e order ?w1 (db w) = (w2, r)"
    by (cases "cancelTx e order ?w1 (db w)")
  have w2: "db w2 = db w"
    using cancelTx_world [of e order ?w1 "db w"] c by (simp add: emit_def)
  show ?thesis
  proof (cases r)
    case (Inl err)
    with c f s w2 cancelTx_Inl [of e order ?w1 "db w" w2 err] show ?thesis
      by (simp add: cancelOrder_def emit_def)
  next
    case (Inr ok)
    obtain tx' upd where ok: "ok = (tx', upd)" by (cases ok)
    from c Inr ok cancelTx_emit [of e order "FindOrder oid" w w2 tx' upd]
    have "upd = order\<lparr>status := CANCELLED\<rparr>" "tx' = cancelledDb e order w" by simp_all
    with c Inr ok f s show ?thesis
      by (simp add: cancelOrder_def emit_def)
  qed
qed

lemma cancelOrder_ok:
  assumes f: "find (\<lambda>order. order_id order = oid) (orders (db w)) = Some order"
    and s: "status order \<noteq> CANCELLED"
    and n: "\<And>wr. \<not> rejects e wr"
  shows "snd (cancelOrder e oid w) = Inr (Some (order\<lparr>status := CANCELLED\<rparr>))"
    and "db (fst (cancelOrder e oid w)) = cancelledDb e order w"
    and "last (trace (fst (cancelOrder e oid w))) = Commit"
  using cancelOrder_active [OF f s, of e] n by auto

lemma find_order_id: "find (\<lambda>order. order_id order = oid) xs = Some order \<Longrightarrow> order_id order = oid"
  by (auto simp: find_Some_iff)

lemma cancelOrder_products:
  assumes "snd (cancelOrder e oid w) = Inr (Some upd)"
  shows "products (db (fst (cancelOrder e oid w))) p =
           map_option (released (restoredFor p (itemsOf oid (db w)))) (products (db w) p)"
proof (cases "find (\<lambda>order. order_id order = oid) (orders (db w))")
  case None
  from cancelOrder_unknown [OF this, of e] assms show ?thesis by simp
next
  case (Some order)
  show ?thesis
  proof (cases "status order = CANCELLED")
    case True
    from cancelOrder_cancelled [OF Some this, of e] assms show ?thesis by simp
  next
    case False
    from cancelOrder_active [OF Some False, of e] assms find_order_id [OF Some]
    show ?thesis by (auto simp: cancelledDb_def)
  qed
qed

lemma cancelOrder_other_db:
  assumes "\<And>upd. snd (cancelOrder e oid w) \<noteq> Inr (Some upd)"
  shows "db (fst (cancelOrder e oid w)) = db w"
proof (cases "find (\<lambda>order. order_id order = oid) (orders (db w))")
  case None
  from cancelOrder_unknown [OF this, of e] show ?thesis by (simp add: emit_def)
next
  case (Some order)
  show ?thesis
  proof (cases "status order = CANCELLED")
    case True
    from cancelOrder_cancelled [OF Some this, of e] show ?thesis by (simp add: emit_def)
  next
    case False
    from cancelOrder_active [OF Some False, of e] assms
    show ?thesis by auto
  qed
qed

lemma env0_accepts: "\<not> rejects env0 wr"
  by (simp add: env0_def)

subsection \<open>The cache-aside read\<close>

lemma getProductById_hit:
  assumes "redis w (PRODUCT_CACHE_PREFIX @ pid) = Some ent" and "rvalue ent \<noteq> []"
    and "parse e (rvalue ent) = Some parsed"
  shows "getProductById e pid w = (emit (RedisGet (PRODUCT_CACHE_PREFIX @ pid)) w, Inr parsed)"
  using assms by (simp add: getProductById_def redis_get_def)

lemma getProductById_miss_refused:
  assumes "redis w (PRODUCT_CACHE_PREFIX @ pid) = None" and "refusesKey e pid"
  shows "getProductById e pid w =
     (emit (FindProduct pid) (emit (RedisGet (PRODUCT_CACHE_PREFIX @ pid)) w), Inl (QueryFailed pid))"
  using assms
  by (simp add: getProductById_def loadThroughCache_def findOne_def redis_get_def emit_def)

lemma getProductById_miss_absent:
  assumes "redis w (PRODUCT_CACHE_PREFIX @ pid) = None" and "\<not> refusesKey e pid"
    and "products (db w) pid = None"
  shows "getProductById e pid w =
     (emit (FindProduct pid) (emit (RedisGet (PRODUCT_CACHE_PREFIX @ pid)) w), Inr NullValue)"
  using assms
  by (simp add: getProductById_def loadThroughCache_def findOne_def redis_get_def emit_def)

lemma getProductById_miss_present:
  assumes "redis w (PRODUCT_CACHE_PREFIX @ pid) = None" and "\<not> refusesKey e pid"
    and "products (db w) pid = Some product"
  shows "getProductById e pid w =
     (redis_setEx (PRODUCT_CACHE_PREFIX @ pid) PRODUCT_CACHE_TTL (stringify e product)
        (emit (FindProduct pid) (emit (RedisGet (PRODUCT_CACHE_PREFIX @ pid)) w)),
      Inr (Snapshot product))"
  using assms
  by (simp add: getProductById_def loadThroughCache_def findOne_def redis_get_def emit_def)

subsection \<open>Independence of the broker\<close>

lemma rewire_pair [simp]: "rewire c (w, r) = (w\<lparr>channel := c\<rparr>, r)"
  by (simp add: rewire_def)

lemma seq_rewire:
  assumes "m' = rewire c m"
    and "\<And>w x. f' (w\<lparr>channel := c\<rparr>) x = rewire c (f w x)"
  shows "(case m' of (w, Inl err) \<Rightarrow> (w, Inl err) | (w, Inr x) \<Rightarrow> f' w x) =
         rewire c (case m of (w, Inl err) \<Rightarrow> (w, Inl err) | (w, Inr x) \<Rightarrow> f w x)"
proof (cases m)
  case (Pair w r)
  with assms show ?thesis by (cases r) simp_all
qed

lemma reserveItem_rewire:
  "reserveItem (e\<lparr>brokerRefuses := b\<rparr>) item (w\<lparr>channel := c\<rparr>) tx tot =
     rewire c (reserveItem e item w tx tot)"
  by (simp add: reserveItem_def reserveLocked_def findOne_def prims Let_def split: option.split)

lemma reserveAll_rewire:
  "reserveAll (e\<lparr>brokerRefuses := b\<rparr>) its (w\<lparr>channel := c\<rparr>) tx tot =
     rewire c (reserveAll e its w tx tot)"
proof (induction its arbitrary: w tx tot)
  case Nil
  show ?case by simp
next
  case (Cons item rest)
  show ?case
    unfolding reserveAll.simps
    by (rule seq_rewire) (simp_all add: reserveItem_rewire Cons.IH split: prod.split)
qed

lemma createOrderItem_rewire:
  "createOrderItem (e\<lparr>brokerRefuses := b\<rparr>) ord item (w\<lparr>channel := c\<rparr>) tx =
     rewire c (createOrderItem e ord item w tx)"
  by (simp add: createOrderItem_def findOne_def prims Let_def split: option.split)

lemma createOrderItems_rewire:
  "createOrderItems (e\<lparr>brokerRefuses := b\<rparr>) ord its (w\<lparr>channel := c\<rparr>) tx =
     rewire c (createOrderItems e ord its w tx)"
proof (induction its arbitrary: w tx)
  case Nil
  show ?case by simp
next
  case (Cons item rest)
  show ?case
    unfolding createOrderItems.simps
    by (rule seq_rewire) (simp_all add: createOrderItem_rewire Cons.IH)
qed

lemma orderOf_rewire: "orderOf (e\<lparr>brokerRefuses := b\<rparr>) data tot n = orderOf e data tot n"
  by (simp add: orderOf_def)

lemma persistOrder_rewire:
  "persistOrder (e\<lparr>brokerRefuses := b\<rparr>) data tot (w\<lparr>channel := c\<rparr>) tx =
     rewire c (persistOrder e data tot w tx)"
  unfolding persistOrder_unfold orderOf_rewire
  apply (rule seq_rewire)
   apply (simp add: save_def emit_def)
  apply simp
  apply (rule seq_rewire)
   apply (rule createOrderItems_rewire)
  apply (rule seq_rewire)
   apply (simp add: save_def emit_def)
  apply simp
  done

lemma createOrderTx_rewire:
  "createOrderTx (e\<lparr>brokerRefuses := b\<rparr>) data (w\<lparr>channel := c\<rparr>) =
     rewire c (createOrderTx e data w)"
proof -
  have e: "emit x (w\<lparr>channel := c\<rparr>) = (emit x w)\<lparr>channel := c\<rparr>" for x
    by (simp add: emit_def)
  show ?thesis
  proof (cases "\<not> refusesKey e (req_userId data) \<and> req_userId data \<in> users (db w)")
    case False
    then show ?thesis by (auto simp: createOrderTx_def findOne_def Let_def e)
  next
    case True
    have "(case reserveAll (e\<lparr>brokerRefuses := b\<rparr>) (items data)
              ((emit (FindUser (req_userId data)) w)\<lparr>channel := c\<rparr>) (db w) 0 of
            (w2, Inl err) \<Rightarrow> (w2, Inl err)
          | (w2, Inr (tx, tot)) \<Rightarrow> persistOrder (e\<lparr>brokerRefuses := b\<rparr>) data tot w2 tx) =
          rewire c (case reserveAll e (items data) (emit (FindUser (req_userId data)) w) (db w) 0 of
            (w2, Inl err) \<Rightarrow> (w2, Inl err)
          | (w2, Inr (tx, tot)) \<Rightarrow> persistOrder e data tot w2 tx)"
      by (rule seq_rewire) (simp_all add: reserveAll_rewire persistOrder_rewire split: prod.split)
    with True show ?thesis by (simp add: createOrderTx_def findOne_def Let_def e)
  qed
qed

lemma createOrder_rewire:
  "snd (createOrder (e\<lparr>brokerRefuses := b\<rparr>) data (w\<lparr>channel := c\<rparr>)) = snd (createOrder e data w) \<and>
   db (fst (createOrder (e\<lparr>brokerRefuses := b\<rparr>) data (w\<lparr>channel := c\<rparr>))) =
     db (fst (createOrder e data w))"
proof (cases "createOrderTx e data w")
  case (Pair w1 r)
  then have t: "createOrderTx (e\<lparr>brokerRefuses := b\<rparr>) data (w\<lparr>channel := c\<rparr>) =
      (w1\<lparr>channel := c\<rparr>, r)"
    by (simp add: createOrderTx_rewire)
  show ?thesis
  proof (cases r)
    case (Inl err)
    with Pair t show ?thesis by (simp add: createOrder_def emit_def)
  next
    case (Inr ok)
    obtain tx ord where ok: "ok = (tx, ord)" by (cases ok)
    with Pair t Inr show ?thesis
      by (simp add: createOrder_def Let_def case_prod_beta publishToExchange_db)
  qed
qed

subsection \<open>The first failing check\<close>

lemma createOrder_result:
  "snd (createOrder e data w) =
     (case snd (createOrderTx e data w) of Inl err \<Rightarrow> Inl err | Inr ok \<Rightarrow> Inr (snd ok))"
  by (simp add: createOrder_def Let_def case_prod_beta split: sum.split)

lemma createOrder_firstFailure_Some:
  assumes "firstFailure e data w = Some err"
  shows "snd (createOrder e data w) = Inl err"
proof (cases "\<not> refusesKey e (req_userId data) \<and> req_userId data \<in> users (db w)")
  case False
  with assms show ?thesis
    by (cases "refusesKey e (req_userId data)")
      (auto simp: firstFailure_def createOrder_result createOrderTx_unknown)
next
  case True
  with assms have r: "reservation e (heldLocks w) (items data) (db w) 0 = Inl err"
    by (simp add: firstFailure_def split: sum.splits)
  let ?w1 = "emit (FindUser (req_userId data)) w"
  have "snd (reserveAll e (items data) ?w1 (db w) 0) = Inl err"
    using r by (simp add: reserveAll_result heldLocks_emit)
  then obtain w2 where "reserveAll e (items data) ?w1 (db w) 0 = (w2, Inl err)"
    by (cases "reserveAll e (items data) ?w1 (db w) 0") simp
  with True show ?thesis
    by (simp add: createOrder_result createOrderTx_known)
qed

lemma createOrder_firstFailure_None:
  assumes "firstFailure e data w = None" and "snd (createOrder e data w) = Inl err"
  shows "kind err = Internal"
proof -
  from assms(2) obtain w1 where t: "createOrderTx e data w = (w1, Inl err)"
    by (cases "createOrderTx e data w") (auto simp: createOrder_result split: sum.splits)
  from createOrderTx_Inl [OF t] assms(1) show ?thesis
    by (auto simp: firstFailure_def split: if_splits sum.splits)
qed

lemma reserveItem_redisCalls:
  "redisCalls w (fst (reserveItem e item w tx tot)) =
     (if redis w (STOCK_LOCK_PREFIX @ productId item) \<noteq> None
      then [RedisSetNX (STOCK_LOCK_PREFIX @ productId item) (uuidv4 e (drawn w)) 30]
      else if isl (snd (reserveItem e item w tx tot))
      then [RedisSetNX (STOCK_LOCK_PREFIX @ productId item) (uuidv4 e (drawn w)) 30,
            RedisDel (STOCK_LOCK_PREFIX @ productId item)]
      else [RedisSetNX (STOCK_LOCK_PREFIX @ productId item) (uuidv4 e (drawn w)) 30,
            RedisDel (''product:'' @ productId item),
            RedisDel (STOCK_LOCK_PREFIX @ productId item)])"
  by (simp add: redisCalls_def calls_def reserveItem_def reserveLocked_def findOne_def prims
      Let_def STOCK_LOCK_TTL_def split: option.split)

lemma reserveItem_refused:
  assumes "redis w (STOCK_LOCK_PREFIX @ productId item) \<noteq> None"
  shows "snd (reserveAll e (item # rest) w tx tot) = Inl (LockRefused (productId item))"
    and "redis (fst (reserveAll e (item # rest) w tx tot)) = redis w"
  using assms
  by (auto simp: reserveItem_def prims Let_def split: option.splits prod.splits)

subsection \<open>The items of a new order\<close>

lemma foldl_upsert_fresh:
  "distinct (map key new) \<Longrightarrow> key ` set new \<inter> key ` set xs = {} \<Longrightarrow>
     foldl (\<lambda>xs i. upsert key i xs) xs new = xs @ new"
proof (induction new arbitrary: xs)
  case Nil
  show ?case by simp
next
  case (Cons a new)
  from Cons.prems have a: "key a \<notin> key ` set xs" by auto
  have step: "upsert key a xs = xs @ [a]" using a by (rule upsert_fresh)
  from Cons.prems have "distinct (map key new)" and "key ` set new \<inter> key ` set (xs @ [a]) = {}"
    by auto
  from Cons.IH [OF this] step show ?case by simp
qed

lemma lineItems_facts:
  assumes "\<forall>i \<in> set its. ps (productId i) \<noteq> None"
  shows "length (lineItems e oid ps n its) = length its"
    and "\<forall>i \<in> set (lineItems e oid ps n its). orderId i = oid"
    and "map (\<lambda>i. (item_productId i, item_quantity i)) (lineItems e oid ps n its) =
           map (\<lambda>i. (productId i, quantity i)) its"
    and "sum_list (map (\<lambda>i. unitPrice i * item_quantity i) (lineItems e oid ps n its)) =
           linesTotal ps its"
    and "\<forall>i \<in> set (lineItems e oid ps n its).
           item_totalPrice i = item_quantity i * unitPrice i \<and>
           (\<exists>pr. ps (item_productId i) = Some pr \<and> unitPrice i = price pr)"
  using assms
proof (induction its arbitrary: n)
  case Nil
  { case 1 show ?case by simp }
  { case 2 show ?case by simp }
  { case 3 show ?case by simp }
  { case 4 show ?case by (simp add: linesTotal_def) }
  { case 5 show ?case by simp }
next
  case (Cons it rest)
  { case 1
    then obtain pr where pr: "ps (productId it) = Some pr" by auto
    from 1 have r: "\<forall>i \<in> set rest. ps (productId i) \<noteq> None" by simp
    from Cons.IH(1) [OF r, of "Suc n"] pr show ?case
      by simp }
  { case 2
    then obtain pr where pr: "ps (productId it) = Some pr" by auto
    from 2 have r: "\<forall>i \<in> set rest. ps (productId i) \<noteq> None" by simp
    from Cons.IH(2) [OF r, of "Suc n"] pr show ?case
      by (simp add: lineItem_def) }
  { case 3
    then obtain pr where pr: "ps (productId it) = Some pr" by auto
    from 3 have r: "\<forall>i \<in> set rest. ps (productId i) \<noteq> None" by simp
    from Cons.IH(3) [OF r, of "Suc n"] pr show ?case
      by (simp add: lineItem_def) }
  { case 4
    then obtain pr where pr: "ps (productId it) = Some pr" by auto
    from 4 have r: "\<forall>i \<in> set rest. ps (productId i) \<noteq> None" by simp
    from Cons.IH(4) [OF r, of "Suc n"] pr show ?case
      by (simp add: lineItem_def linesTotal_def linePrice_def) }
  { case 5
    then obtain pr where pr: "ps (productId it) = Some pr" by auto
    from 5 have r: "\<forall>i \<in> set rest. ps (productId i) \<noteq> None" by simp
    from Cons.IH(5) [OF r, of "Suc n"] pr show ?case
      by (simp add: lineItem_def mult.commute) }
qed

lemma lineItems_ids:
  "i \<in> set (lineItems e oid ps n its) \<Longrightarrow>
     \<exists>m. n \<le> m \<and> m < n + length its \<and> item_id i = uuidv4 e m"
proof (induction its arbitrary: n)
  case Nil
  then show ?case by simp
next
  case (Cons it rest)
  show ?case
  proof (cases "ps (productId it)")
    case None
    with Cons.prems show ?thesis by simp
  next
    case (Some pr)
    with Cons.prems have "i = lineItem (uuidv4 e n) oid pr it \<or>
        i \<in> set (lineItems e oid ps (Suc n) rest)"
      by simp
    then show ?thesis
    proof
      assume "i = lineItem (uuidv4 e n) oid pr it"
      then have "n \<le> n \<and> n < n + length (it # rest) \<and> item_id i = uuidv4 e n"
        by (simp add: lineItem_def)
      then show ?thesis by blast
    next
      assume "i \<in> set (lineItems e oid ps (Suc n) rest)"
      from Cons.IH [OF this] obtain m where
        "Suc n \<le> m" "m < Suc n + length rest" "item_id i = uuidv4 e m" by blast
      then have "n \<le> m \<and> m < n + length (it # rest) \<and> item_id i = uuidv4 e m" by simp
      then show ?thesis by blast
    qed
  qed
qed

lemma lineItems_distinct:
  "inj_on (uuidv4 e) {n..} \<Longrightarrow> distinct (map item_id (lineItems e oid ps n its))"
proof (induction its arbitrary: n)
  case Nil
  show ?case by simp
next
  case (Cons it rest)
  show ?case
  proof (cases "ps (productId it)")
    case None
    then show ?thesis by simp
  next
    case (Some pr)
    have inj': "inj_on (uuidv4 e) {Suc n..}"
      by (rule inj_on_subset [OF Cons.prems]) auto
    have "uuidv4 e n \<notin> item_id ` set (lineItems e oid ps (Suc n) rest)"
    proof
      assume "uuidv4 e n \<in> item_id ` set (lineItems e oid ps (Suc n) rest)"
      then obtain i where i: "i \<in> set (lineItems e oid ps (Suc n) rest)" "item_id i = uuidv4 e n"
        by auto
      from lineItems_ids [OF i(1)] obtain m where m: "Suc n \<le> m" "item_id i = uuidv4 e m"
        by blast
      from m i(2) have "uuidv4 e n = uuidv4 e m" by simp
      moreover have "n \<in> {n..}" "m \<in> {n..}" using m(1) by simp_all
      ultimately have "n = m" using Cons.prems by (blast dest: inj_onD)
      with m(1) show False by simp
    qed
    with Cons.IH [OF inj'] Some show ?thesis by (simp add: lineItem_def)
  qed
qed

lemma itemsOf_append_new:
  assumes "oid \<notin> orderId ` set xs" and "\<forall>i \<in> set new. orderId i = oid"
  shows "filter (\<lambda>i. orderId i = oid) (xs @ new) = new"
proof -
  have "filter (\<lambda>i. orderId i = oid) xs = []"
    using assms(1) by (auto simp: filter_empty_conv)
  moreover have "filter (\<lambda>i. orderId i = oid) new = new"
    using assms(2) by (simp add: filter_id_conv)
  ultimately show ?thesis by simp
qed

lemma createOrder_items:
  assumes ok: "snd (createOrder e data w) = Inr ord"
    and inj: "inj_on (uuidv4 e) {drawn w..}"
    and fresh: "\<forall>n\<ge>drawn w. uuidv4 e n \<notin> item_id ` set (orderItems (db w)) \<and>
                              uuidv4 e n \<notin> orderId ` set (orderItems (db w))"
  obtains new where
    "itemsOf (order_id ord) (db (fst (createOrder e data w))) = new"
    "new = lineItems e (order_id ord) (products (db w))
             (Suc (Suc (drawn w + length (items data)))) (items data)"
    "\<forall>i \<in> set (items data). products (db w) (productId i) \<noteq> None"
    "totalPrice ord = linesTotal (products (db w)) (items data)"
    "find (\<lambda>x. order_id x = order_id ord) (orders (db (fst (createOrder e data w)))) = Some ord"
proof -
  let ?db' = "db (fst (createOrder e data w))"
  let ?n = "Suc (Suc (drawn w + length (items data)))"
  from ok obtain w1 where tx: "createOrderTx e data w = (w1, Inr (?db', ord))"
    by (rule createOrder_Inr)
  from tx obtain txr tot where
    res: "reservation e (heldLocks w) (items data) (db w) 0 = Inr (txr, tot)" and
    o: "ord = orderOf e data tot (drawn w + length (items data))" and
    os: "orders ?db' = upsert order_id ord (orders txr)" and
    its: "orderItems ?db' =
       foldl (\<lambda>xs i. upsert item_id i xs) (orderItems txr)
         (lineItems e (order_id ord) (products txr) ?n (items data))"
    by (rule createOrderTx_Inr)
  note rs = reservation_success [OF res]
  have defd: "\<forall>i \<in> set (items data). products (db w) (productId i) \<noteq> None"
    using rs by blast
  have defd': "\<forall>i \<in> set (items data). products txr (productId i) \<noteq> None"
    using rs defd by auto
  have prices: "map_option price (products txr p) = map_option price (products (db w) p)" for p
    using rs by (simp add: option.map_comp comp_def price_reserved)
  have same: "lineItems e oid (products txr) n xs = lineItems e oid (products (db w)) n xs"
    for oid n xs
  proof (induction xs arbitrary: n)
    case Nil
    show ?case by simp
  next
    case (Cons x xs)
    from prices [of "productId x"] Cons show ?case
      by (cases "products txr (productId x)"; cases "products (db w) (productId x)")
        (auto simp: lineItem_def)
  qed
  let ?new = "lineItems e (order_id ord) (products (db w)) ?n (items data)"
  note lf = lineItems_facts [OF defd, of e "order_id ord" ?n]
  have "inj_on (uuidv4 e) {?n..}"
    by (rule inj_on_subset [OF inj]) auto
  then have dist: "distinct (map item_id ?new)"
    by (rule lineItems_distinct)
  have disj: "item_id ` set ?new \<inter> item_id ` set (orderItems (db w)) = {}"
  proof (rule ccontr)
    assume "item_id ` set ?new \<inter> item_id ` set (orderItems (db w)) \<noteq> {}"
    then obtain i j where i: "i \<in> set ?new" and j: "j \<in> set (orderItems (db w))"
      and ij: "item_id i = item_id j"
      by auto
    from lineItems_ids [OF i] obtain m where m: "?n \<le> m" "item_id i = uuidv4 e m" by blast
    from m(1) have "drawn w \<le> m" by simp
    with fresh have "uuidv4 e m \<notin> item_id ` set (orderItems (db w))" by blast
    moreover have "uuidv4 e m \<in> item_id ` set (orderItems (db w))"
      using m(2) ij j by (metis imageI)
    ultimately show False by simp
  qed
  have items': "orderItems ?db' = orderItems (db w) @ ?new"
    using its rs foldl_upsert_fresh [OF dist disj] by (simp add: same)
  have oid: "order_id ord = uuidv4 e (Suc (drawn w + length (items data)))"
    using o by (simp add: orderOf_def)
  have "order_id ord \<notin> orderId ` set (orderItems (db w))"
    unfolding oid using fresh by simp
  then have a: "itemsOf (order_id ord) ?db' = ?new"
    unfolding itemsOf_def items' by (rule itemsOf_append_new) (rule lf(2))
  have t: "totalPrice ord = linesTotal (products (db w)) (items data)"
    using o rs by (simp add: orderOf_def)
  have f: "find (\<lambda>x. order_id x = order_id ord) (orders ?db') = Some ord"
    unfolding os by (rule find_upsert_same)
  from that [OF a refl defd t f] show thesis .
qed

lemma env0_uuids_distinct: "inj_on (uuidv4 env0) A"
proof (rule inj_onI)
  fix x y
  assume "uuidv4 env0 x = uuidv4 env0 y"
  then have "length (replicate (Suc x) CHR ''u'') = length (replicate (Suc y) CHR ''u'')"
    by (simp add: env0_def)
  then show "x = y" by simp
qed

lemma message_kind:
  "message_of a = Some s \<Longrightarrow> message_of b = Some s \<Longrightarrow> kind a = kind b"
  by (cases a; cases b) (auto split: if_splits)

subsection \<open>One request after the other\<close>

lemma reservation_keeps_stock_nonnegative:
  "reservation e held its tx tot = Inr (tx', tot') \<Longrightarrow>
   (\<And>p pr. products tx p = Some pr \<Longrightarrow> 0 \<le> stock pr) \<Longrightarrow>
   products tx' p = Some pr' \<Longrightarrow> 0 \<le> stock pr'"
proof (induction its arbitrary: tx tot)
  case Nil
  then show ?case by simp
next
  case (Cons item rest)
  from Cons.prems(1) obtain pr where
    pr: "products tx (productId item) = Some pr" and enough: "\<not> stock pr < quantity item" and
    rest: "reservation e held rest
             (tx\<lparr>products := (products tx)(productId item \<mapsto> reserved (quantity item) pr)\<rparr>)
             (tot + price pr * quantity item) = Inr (tx', tot')"
    by (auto split: if_splits option.splits)
  show ?case
  proof (rule Cons.IH [OF rest _ Cons.prems(3)])
    fix q qr
    assume "products (tx\<lparr>products := (products tx)(productId item \<mapsto> reserved (quantity item) pr)\<rparr>) q
        = Some qr"
    with enough Cons.prems(2) show "0 \<le> stock qr"
      by (cases "q = productId item") (auto simp: reserved_def)
  qed
qed

text \<open>
  Requests served one after the other never take a stock below zero: with
  \<^verbatim>\<open>stock + reservedStock\<close> constant, what they have reserved of a product never
  exceeds what it had.
\<close>

lemma createOrder_keeps_stock_nonnegative:
  assumes "\<And>p pr. products (db w) p = Some pr \<Longrightarrow> 0 \<le> stock pr"
    and "products (db (fst (createOrder e data w))) p = Some pr'"
  shows "0 \<le> stock pr'"
proof (cases "snd (createOrder e data w)")
  case (Inl err)
  then have "db (fst (createOrder e data w)) = db w"
    by (simp add: createOrder_Inl_db)
  with assms show ?thesis by simp
next
  case (Inr ord)
  then obtain w1 where
    tx: "createOrderTx e data w = (w1, Inr (db (fst (createOrder e data w)), ord))"
    by (rule createOrder_Inr)
  from tx obtain txr tot where
    res: "reservation e (heldLocks w) (items data) (db w) 0 = Inr (txr, tot)" and
    p: "products (db (fst (createOrder e data w))) = products txr"
    by (rule createOrderTx_Inr)
  from assms(2) p have "products txr p = Some pr'" by simp
  from reservation_keeps_stock_nonnegative [OF res assms(1) this] show ?thesis .
qed

subsection \<open>Requests that overlap\<close>

text \<open>
  The rows a transaction has built are the rows it started from with its writes applied,
  so a request that runs alone ends as \<open>endOrder\<close> says. A transaction that is open
  changes neither the committed rows nor, once its loop is over, the locks: the checks
  of a request that arrives then come out as if the open transaction were not there,
  and where they all pass, that request is not turned away.
\<close>

lemma writesIn_append: "writesIn (a @ b) = writesIn a @ writesIn b"
  by (induction a rule: writesIn.induct) simp_all

lemma commitWrites_append: "commitWrites (a @ b) d = commitWrites b (commitWrites a d)"
  by (simp add: commitWrites_def)

lemma replays_refl: "trace w' = trace w \<Longrightarrow> replays w w' tx tx"
  by (simp add: replays_def commitWrites_def)

lemma replays_trans:
  "replays w w1 tx tx1 \<Longrightarrow> replays w1 w2 tx1 tx2 \<Longrightarrow> replays w w2 tx tx2"
  by (auto simp: replays_def writesIn_append commitWrites_append)

lemma replays_from: "trace a = trace w \<Longrightarrow> replays a w' tx tx' \<Longrightarrow> replays w w' tx tx'"
  by (simp add: replays_def)

lemma replays_read:
  "replays (emit (FindUser u) w) w' tx tx' \<Longrightarrow> replays w w' tx tx'"
  by (auto simp: replays_def emit_def)

lemma replays_save: "save e wr w tx = (w', Inr tx') \<Longrightarrow> replays w w' tx tx'"
  by (auto simp: replays_def save_def emit_def commitWrites_def split: if_splits)

lemma replays_reserveItem:
  "reserveItem e item w tx tot = (w', Inr (tx', tot')) \<Longrightarrow> replays w w' tx tx'"
  by (auto simp: replays_def reserveItem_def reserveLocked_def findOne_def prims Let_def
      commitWrites_def split: option.splits prod.splits sum.splits if_splits)

lemma replays_reserveAll:
  "reserveAll e its w tx tot = (w', Inr (tx', tot')) \<Longrightarrow> replays w w' tx tx'"
proof (induction its arbitrary: w tx tot)
  case Nil
  then show ?case by (simp add: replays_refl)
next
  case (Cons item rest)
  from Cons.prems [unfolded reserveAll.simps] obtain w1 ok where
    s: "reserveItem e item w tx tot = (w1, Inr ok)" and
    r: "(case ok of (tx1, tot1) \<Rightarrow> reserveAll e rest w1 tx1 tot1) = (w', Inr (tx', tot'))"
    by (rule seq_InrE)
  obtain tx1 tot1 where ok: "ok = (tx1, tot1)" by (cases ok)
  from s ok have "replays w w1 tx tx1" by (simp add: replays_reserveItem)
  moreover from r ok have "replays w1 w' tx1 tx'" by (simp add: Cons.IH)
  ultimately show ?case by (rule replays_trans)
qed

lemma replays_createOrderItem:
  "createOrderItem e ord item w tx = (w', Inr tx') \<Longrightarrow> replays w w' tx tx'"
  by (auto simp: replays_def createOrderItem_def findOne_def prims Let_def
      commitWrites_def split: option.splits prod.splits sum.splits if_splits)

lemma replays_createOrderItems:
  "createOrderItems e ord its w tx = (w', Inr tx') \<Longrightarrow> replays w w' tx tx'"
proof (induction its arbitrary: w tx)
  case Nil
  then show ?case by (simp add: replays_refl)
next
  case (Cons item rest)
  from Cons.prems [unfolded createOrderItems.simps] obtain w1 tx1 where
    s: "createOrderItem e ord item w tx = (w1, Inr tx1)" and
    r: "createOrderItems e ord rest w1 tx1 = (w', Inr tx')"
    by (rule seq_InrE)
  from replays_createOrderItem [OF s] Cons.IH [OF r] show ?case by (rule replays_trans)
qed

lemma replays_persistOrder:
  assumes "persistOrder e data tot w tx = (w', Inr (tx', ord))"
  shows "replays w w' tx tx'"
proof -
  let ?ord = "orderOf e data tot (drawn w)"
  from assms [unfolded persistOrder_unfold] obtain w3 tx1 where
    s1: "save e (SaveOrder ?ord) (w\<lparr>drawn := Suc (Suc (drawn w))\<rparr>) tx = (w3, Inr tx1)" and
    r1: "(case createOrderItems e ?ord (items data) w3 tx1 of
             (w4, Inl err) \<Rightarrow> (w4, Inl err)
           | (w4, Inr tx2) \<Rightarrow>
               (case save e (SaveEventLog
                        (createdLog (uuidv4 e (drawn w4)) (order_id ?ord) data tot))
                      (w4\<lparr>drawn := Suc (drawn w4)\<rparr>) tx2 of
                  (w6, Inl err) \<Rightarrow> (w6, Inl err)
                | (w6, Inr tx3) \<Rightarrow> (w6, Inr (tx3, ?ord)))) = (w', Inr (tx', ord))"
    by (rule seq_InrE)
  from r1 obtain w4 tx2 where
    s2: "createOrderItems e ?ord (items data) w3 tx1 = (w4, Inr tx2)" and
    r2: "(case save e (SaveEventLog
                        (createdLog (uuidv4 e (drawn w4)) (order_id ?ord) data tot))
                      (w4\<lparr>drawn := Suc (drawn w4)\<rparr>) tx2 of
                  (w6, Inl err) \<Rightarrow> (w6, Inl err)
                | (w6, Inr tx3) \<Rightarrow> (w6, Inr (tx3, ?ord))) = (w', Inr (tx', ord))"
    by (rule seq_InrE)
  from r2 obtain w6 tx3 where
    s3: "save e (SaveEventLog (createdLog (uuidv4 e (drawn w4)) (order_id ?ord) data tot))
           (w4\<lparr>drawn := Suc (drawn w4)\<rparr>) tx2 = (w6, Inr tx3)" and
    r3: "(w6, Inr (tx3, ?ord)) = (w', Inr (tx', ord) :: error + database \<times> Order)"
    by (rule seq_InrE)
  from r3 have e: "w6 = w'" "tx3 = tx'" by simp_all
  have a: "replays w w3 tx tx1"
    by (rule replays_from [OF _ replays_save [OF s1]]) simp
  have b: "replays w3 w4 tx1 tx2"
    by (rule replays_createOrderItems [OF s2])
  have c: "replays w4 w' tx2 tx'"
    using replays_from [OF _ replays_save [OF s3], of w4] e by simp
  from replays_trans [OF a b] c show ?thesis by (rule replays_trans)
qed

lemma replays_createOrderTx:
  assumes "createOrderTx e data w = (w', Inr (tx', ord))"
  shows "replays w w' (db w) tx'"
proof -
  from assms obtain txr tot where k: "\<not> refusesKey e (req_userId data)"
    and u: "req_userId data \<in> users (db w)"
    by (rule createOrderTx_Inr)
  let ?w1 = "emit (FindUser (req_userId data)) w"
  from assms [unfolded createOrderTx_known [OF k u]] obtain w2 ok where
    s: "reserveAll e (items data) ?w1 (db w) 0 = (w2, Inr ok)" and
    r: "(case ok of (tx, tot) \<Rightarrow> persistOrder e data tot w2 tx) = (w', Inr (tx', ord))"
    by (rule seq_InrE)
  obtain tx1 tot1 where ok: "ok = (tx1, tot1)" by (cases ok)
  from s ok have "replays ?w1 w2 (db w) tx1" by (simp add: replays_reserveAll)
  moreover from r ok have "replays w2 w' tx1 tx'" by (simp add: replays_persistOrder)
  ultimately have "replays ?w1 w' (db w) tx'" by (rule replays_trans)
  then show ?thesis by (rule replays_read)
qed

lemma createOrderTx_writes:
  assumes "createOrderTx e data w = (w', Inr (tx', ord))"
  shows "commitWrites (writesIn (calls w w')) (db w) = tx'"
  using replays_createOrderTx [OF assms] by (auto simp: replays_def calls_def)

lemma endOrder_alone:
  "createOrder e data w =
     (case createOrderTx e data w of
        (w1, r) \<Rightarrow> endOrder e data (writesIn (calls w w1)) r w1)"
proof (cases "createOrderTx e data w")
  case (Pair w1 r)
  show ?thesis
  proof (cases r)
    case (Inl err)
    with Pair show ?thesis by (simp add: createOrder_def endOrder_def)
  next
    case (Inr ok)
    obtain tx ord where ok: "ok = (tx, ord)" by (cases ok)
    from Pair Inr ok have t: "createOrderTx e data w = (w1, Inr (tx, ord))" by simp
    have "db w1 = db w"
      using createOrderTx_world [of e data w] t by simp
    with createOrderTx_writes [OF t] have "commitWrites (writesIn (calls w w1)) (db w1) = tx"
      by simp
    with t show ?thesis by (simp add: createOrder_def endOrder_def)
  qed
qed

lemma reserveAll_heldLocks: "heldLocks (fst (reserveAll e its w tx tot)) = heldLocks w"
proof (induction its arbitrary: w tx tot)
  case Nil
  show ?case by simp
next
  case (Cons item rest)
  obtain w' r where step: "reserveItem e item w tx tot = (w', r)"
    by (cases "reserveItem e item w tx tot")
  have held: "heldLocks w' = heldLocks w"
    using heldLocks_reserveItem [of e item w tx tot] step by simp
  show ?case
  proof (cases r)
    case (Inl err)
    with step held show ?thesis by simp
  next
    case (Inr ok)
    obtain tx1 tot1 where ok: "ok = (tx1, tot1)" by (cases ok)
    with Inr step held Cons.IH [of w' tx1 tot1] show ?thesis by simp
  qed
qed

lemma createOrderItem_redis: "redis (fst (createOrderItem e ord item w tx)) = redis w"
  by (simp add: createOrderItem_def findOne_def prims Let_def split: option.splits)

lemma createOrderItems_redis: "redis (fst (createOrderItems e ord its w tx)) = redis w"
proof (induction its arbitrary: w tx)
  case Nil
  show ?case by simp
next
  case (Cons item rest)
  obtain w' r where step: "createOrderItem e ord item w tx = (w', r)"
    by (cases "createOrderItem e ord item w tx")
  have w': "redis w' = redis w"
    using createOrderItem_redis [of e ord item w tx] step by simp
  show ?case
  proof (cases r)
    case (Inl err)
    with step w' show ?thesis by simp
  next
    case (Inr tx1)
    with step w' Cons.IH [of w' tx1] show ?thesis by simp
  qed
qed

lemma persistOrder_redis: "redis (fst (persistOrder e data tot w tx)) = redis w"
  by (simp add: persistOrder_unfold case_prod_beta save_world createOrderItems_redis
      split: sum.split)

lemma heldLocks_redis: "redis w' = redis w \<Longrightarrow> heldLocks w' = heldLocks w"
  by (rule ext) (simp add: heldLocks_def)

lemma createOrderTx_heldLocks: "heldLocks (fst (createOrderTx e data w)) = heldLocks w"
proof (cases "\<not> refusesKey e (req_userId data) \<and> req_userId data \<in> users (db w)")
  case False
  then show ?thesis
    by (cases "refusesKey e (req_userId data)") (auto simp: createOrderTx_unknown heldLocks_emit)
next
  case True
  let ?w1 = "emit (FindUser (req_userId data)) w"
  obtain w2 r where r: "reserveAll e (items data) ?w1 (db w) 0 = (w2, r)"
    by (cases "reserveAll e (items data) ?w1 (db w) 0")
  have h2: "heldLocks w2 = heldLocks w"
    using reserveAll_heldLocks [of e "items data" ?w1 "db w" 0] r by (simp add: heldLocks_emit)
  show ?thesis
  proof (cases r)
    case (Inl err)
    with True r h2 show ?thesis by (simp add: createOrderTx_known)
  next
    case (Inr ok)
    obtain txr tot where ok: "ok = (txr, tot)" by (cases ok)
    have "heldLocks (fst (persistOrder e data tot w2 txr)) = heldLocks w2"
      by (rule heldLocks_redis) (rule persistOrder_redis)
    with True r Inr ok h2 show ?thesis by (simp add: createOrderTx_known)
  qed
qed

lemma open_transaction_unseen:
  "firstFailure e second (fst (createOrderTx e first w)) = firstFailure e second w"
  by (simp add: firstFailure_def createOrderTx_heldLocks createOrderTx_world)

lemma overlapping_second:
  "snd (snd (overlapping e first second w)) =
     snd (createOrder e second (fst (createOrderTx e first w)))"
  by (simp add: overlapping_def endOrder_def createOrder_result case_prod_beta Let_def
      split: sum.split)

lemma overlapping_first:
  "fst (snd (overlapping e first second w)) = snd (createOrder e first w)"
  by (simp add: overlapping_def endOrder_def createOrder_result case_prod_beta Let_def
      split: sum.split)

lemma overlapping_second_passes:
  assumes "firstFailure e second w = None"
    and "snd (snd (overlapping e first second w)) = Inl err"
  shows "kind err = Internal"
proof -
  have "firstFailure e second (fst (createOrderTx e first w)) = None"
    using assms(1) by (simp add: open_transaction_unseen)
  moreover have "snd (createOrder e second (fst (createOrderTx e first w))) = Inl err"
    using assms(2) by (simp add: overlapping_second)
  ultimately show ?thesis by (rule createOrder_firstFailure_None)
qed

section \<open>The claims\<close>

text \<open>
  The first theorem is about two requests that overlap. Every other theorem is about
  requests that run one after the other: a world goes in, a world comes out.
\<close>

text \<open>
  C1. A product with a stock of ten and two requests for six of it, the second arriving
  while the first, its lock deleted, has not committed yet. The second finds the lock
  free and the committed row still at ten, so its check passes too and
  \<^verbatim>\<open>createOrder\<close> returns its order: both requests succeed, each with an order of six,
  and the row ends at a stock of four with six reserved while the orders hold twelve. The sum of what the successful requests have
  reserved exceeds the initial stock, and none of the two fails. Served one after the
  other, the second of the same two requests fails for want of stock.
\<close>

theorem overlapping_orders_oversell:
  "products (db world0) ''p1'' = Some widget \<and> stock widget = 10 \<and>
   redis (fst (createOrderTx env0 six world0)) ''stock_lock:p1'' = None \<and>
   products (db (fst (createOrderTx env0 six world0))) ''p1'' = Some widget \<and>
   map_sum id order_id (snd (createOrder env0 six (fst (createOrderTx env0 six world0)))) =
     Inr ''uuuuuuuu'' \<and>
   map_sum id order_id (fst (snd (overlapping env0 six six world0))) = Inr ''uuu'' \<and>
   map_sum id order_id (snd (snd (overlapping env0 six six world0))) = Inr ''uuuuuuuu'' \<and>
   products (db (fst (overlapping env0 six six world0))) ''p1'' =
     Some (widget\<lparr>stock := 4, reservedStock := 6\<rparr>) \<and>
   map (\<lambda>i. (orderId i, item_productId i, item_quantity i))
       (orderItems (db (fst (overlapping env0 six six world0)))) =
     [(''uuu'', ''p1'', 6), (''uuuuuuuu'', ''p1'', 6)] \<and>
   orderedOf ''p1'' (db (fst (overlapping env0 six six world0))) = 12 \<and>
   snd (createOrder env0 six (fst (createOrder env0 six world0))) =
     Inl (StockShort ''widget'' 4 6)"
proof -
  have start: "products (db world0) ''p1'' = Some widget \<and> stock widget = 10"
    by (simp add: world0_def db0_def widget_def)
  have between: "(case createOrderTx env0 six world0 of
        (w1, r1) \<Rightarrow> (redis w1 ''stock_lock:p1'', products (db w1) ''p1'')) = (None, Some widget)"
    by code_simp
  have both: "(case overlapping env0 six six world0 of
        (w, a, b) \<Rightarrow>
          (map_sum id order_id a, map_sum id order_id b, products (db w) ''p1'',
           map (\<lambda>i. (orderId i, item_productId i, item_quantity i)) (orderItems (db w)),
           orderedOf ''p1'' (db w))) =
      (Inr ''uuu'', Inr ''uuuuuuuu'', Some (widget\<lparr>stock := 4, reservedStock := 6\<rparr>),
       [(''uuu'', ''p1'', 6), (''uuuuuuuu'', ''p1'', 6)], 12)"
    by code_simp
  have after: "(case createOrder env0 six world0 of
        (w1, r1) \<Rightarrow> snd (createOrder env0 six w1)) = Inl (StockShort ''widget'' 4 6)"
    by code_simp
  from between have b: "redis (fst (createOrderTx env0 six world0)) ''stock_lock:p1'' = None"
    "products (db (fst (createOrderTx env0 six world0))) ''p1'' = Some widget"
    by (simp_all add: case_prod_beta)
  from both have o: "map_sum id order_id (fst (snd (overlapping env0 six six world0))) = Inr ''uuu''"
    "map_sum id order_id (snd (snd (overlapping env0 six six world0))) = Inr ''uuuuuuuu''"
    "products (db (fst (overlapping env0 six six world0))) ''p1'' =
       Some (widget\<lparr>stock := 4, reservedStock := 6\<rparr>)"
    "map (\<lambda>i. (orderId i, item_productId i, item_quantity i))
       (orderItems (db (fst (overlapping env0 six six world0)))) =
     [(''uuu'', ''p1'', 6), (''uuuuuuuu'', ''p1'', 6)]"
    "orderedOf ''p1'' (db (fst (overlapping env0 six six world0))) = 12"
    by (simp_all add: case_prod_beta)
  from after have s: "snd (createOrder env0 six (fst (createOrder env0 six world0))) =
     Inl (StockShort ''widget'' 4 6)"
    by (simp add: case_prod_beta)
  from o(2) have m: "map_sum id order_id
      (snd (createOrder env0 six (fst (createOrderTx env0 six world0)))) = Inr ''uuuuuuuu''"
    by (simp add: overlapping_second)
  from start b m o s show ?thesis by (intro conjI) simp_all
qed

text \<open>
  C2. \<^verbatim>\<open>createOrder\<close> and \<^verbatim>\<open>cancelOrder\<close> leave \<^verbatim>\<open>stock + reservedStock\<close> of every
  product as it was, whether they succeed or fail. A successful \<^verbatim>\<open>createOrder\<close> moves,
  for each product, the quantities of its lines from \<^verbatim>\<open>stock\<close> to \<^verbatim>\<open>reservedStock\<close>;
  a successful \<^verbatim>\<open>cancelOrder\<close> moves the quantities of the order's items back.
\<close>

theorem stock_plus_reserved_conserved:
  "map_option stockSum (products (db (fst (createOrder e data w))) p) =
     map_option stockSum (products (db w) p) \<and>
   map_option stockSum (products (db (fst (cancelOrder e oid w))) p) =
     map_option stockSum (products (db w) p) \<and>
   (\<not> isl (snd (createOrder e data w)) \<longrightarrow>
      products (db (fst (createOrder e data w))) p =
        map_option (reserved (reservedFor p (items data))) (products (db w) p)) \<and>
   ((\<exists>upd. snd (cancelOrder e oid w) = Inr (Some upd)) \<longrightarrow>
      products (db (fst (cancelOrder e oid w))) p =
        map_option (released (restoredFor p (itemsOf oid (db w)))) (products (db w) p))"
proof -
  have c1: "products (db (fst (createOrder e data w))) p =
        map_option (reserved (reservedFor p (items data))) (products (db w) p)"
    if "\<not> isl (snd (createOrder e data w))"
  proof -
    from that obtain ord where "snd (createOrder e data w) = Inr ord"
      by (cases "snd (createOrder e data w)") auto
    then show ?thesis by (rule createOrder_products)
  qed
  have s1: "map_option stockSum (products (db (fst (createOrder e data w))) p) =
     map_option stockSum (products (db w) p)"
  proof (cases "isl (snd (createOrder e data w))")
    case True
    then show ?thesis by (simp add: createOrder_Inl_db)
  next
    case False
    from c1 [OF this] show ?thesis
      by (simp add: option.map_comp comp_def stockSum_reserved)
  qed
  have c2: "products (db (fst (cancelOrder e oid w))) p =
        map_option (released (restoredFor p (itemsOf oid (db w)))) (products (db w) p)"
    if "\<exists>upd. snd (cancelOrder e oid w) = Inr (Some upd)"
    using that cancelOrder_products by blast
  have s2: "map_option stockSum (products (db (fst (cancelOrder e oid w))) p) =
     map_option stockSum (products (db w) p)"
  proof (cases "\<exists>upd. snd (cancelOrder e oid w) = Inr (Some upd)")
    case True
    from c2 [OF this] show ?thesis
      by (simp add: option.map_comp comp_def stockSum_released)
  next
    case False
    then have "db (fst (cancelOrder e oid w)) = db w"
      using cancelOrder_other_db by blast
    then show ?thesis by simp
  qed
  from s1 s2 c1 c2 show ?thesis by blast
qed

theorem stock_plus_reserved_conserved_witness:
  "products (db world1) ''p1'' = Some (widget\<lparr>stock := 7, reservedStock := 3\<rparr>) \<and>
   products (db (fst (createOrder env0 (order_of ''alice'' [(''p1'', 2), (''p1'', 4)]) world1))) ''p1'' =
     Some (widget\<lparr>stock := 1, reservedStock := 9\<rparr>) \<and>
   products (db (fst (cancelOrder env0 ''uuu'' world1))) ''p1'' = Some widget"
proof -
  let ?data = "order_of ''alice'' [(''p1'', 2), (''p1'', 4)]"
  have w1: "products (db world1) ''p1'' = Some (widget\<lparr>stock := 7, reservedStock := 3\<rparr>)"
    by code_simp
  have h1: "\<not> isl (snd (createOrder env0 ?data world1))"
    by code_simp
  have h2: "\<exists>upd. snd (cancelOrder env0 ''uuu'' world1) = Inr (Some upd)"
    by (rule exI [of _ "\<lparr>order_id = ''uuu'', userId = ''alice'', status = CANCELLED,
        totalPrice = 750, referenceNo = ''ORD-7-uu''\<rparr>"]) code_simp
  have r1: "reservedFor ''p1'' (items ?data) = 6"
    by code_simp
  have r2: "restoredFor ''p1'' (itemsOf ''uuu'' (db world1)) = 3"
    by code_simp
  from stock_plus_reserved_conserved [of env0 ?data world1 "''p1''" "''uuu''"] h1 h2
  show ?thesis
    by (simp add: w1 r1 r2 reserved_def released_def widget_def)
qed

text \<open>
  C3. A \<^verbatim>\<open>createOrder\<close> that fails, at whatever step and after any number of stock
  mutations inside the transaction, ends with a rollback and leaves the committed rows
  (products, orders, order items, event logs) exactly as they were before the request.
\<close>

theorem createOrder_failure_rolls_back:
  "isl (snd (createOrder e data w)) \<Longrightarrow>
     db (fst (createOrder e data w)) = db w \<and>
     last (trace (fst (createOrder e data w))) = Rollback"
  by (simp add: createOrder_def Let_def case_prod_beta emit_def createOrderTx_world
      split: sum.splits)

text \<open>
  Two lines of six against a stock of ten: the first is reserved inside the transaction,
  the second finds four left and fails; the committed rows are the old ones.
\<close>

theorem createOrder_failure_rolls_back_witness:
  "snd (createOrder env0 (order_of ''alice'' [(''p1'', 6), (''p1'', 6)]) world0) =
     Inl (StockShort ''widget'' 4 6) \<and>
   Save (SaveProduct ''p1'' (widget\<lparr>stock := 4, reservedStock := 6\<rparr>)) \<in>
     set (trace (fst (createOrder env0 (order_of ''alice'' [(''p1'', 6), (''p1'', 6)]) world0))) \<and>
   db (fst (createOrder env0 (order_of ''alice'' [(''p1'', 6), (''p1'', 6)]) world0)) = db world0 \<and>
   last (trace (fst (createOrder env0 (order_of ''alice'' [(''p1'', 6), (''p1'', 6)]) world0))) = Rollback"
proof -
  let ?run = "createOrder env0 (order_of ''alice'' [(''p1'', 6), (''p1'', 6)]) world0"
  have r: "snd ?run = Inl (StockShort ''widget'' 4 6)"
    by code_simp
  have t: "Save (SaveProduct ''p1'' (widget\<lparr>stock := 4, reservedStock := 6\<rparr>)) \<in> set (trace (fst ?run))"
    by code_simp
  from r have "isl (snd ?run)" by simp
  from createOrder_failure_rolls_back [OF this] r t show ?thesis by simp
qed



text \<open>
  C5, as the code has it. \<^verbatim>\<open>createOrder\<close> makes its checks in a fixed order and throws
  at the first one that fails: the read of the user returns (an internal error when the
  store refuses the id as a key) and finds the user (\<open>NotFound\<close>); then, for each line
  in turn, the lock is granted (\<open>LockConflict\<close>), the read of the product returns (an
  internal error again) and finds the product (\<open>NotFound\<close>), the quantity does not
  exceed the stock the earlier lines of the request have left (\<open>InsufficientStock\<close>,
  with the name, the stock found and the quantity asked), the store takes the write.
  \<open>firstFailure\<close> is that first failing check; when there is none, \<^verbatim>\<open>createOrder\<close>
  succeeds or fails with an internal error. The kinds can be told apart: two errors of
  the services' own with the same message are of one kind.
\<close>

theorem createOrder_throws_first_failure:
  "(case firstFailure e data w of
      Some err \<Rightarrow> snd (createOrder e data w) = Inl err
    | None \<Rightarrow> (case snd (createOrder e data w) of Inl err \<Rightarrow> kind err = Internal | Inr ord \<Rightarrow> True)) \<and>
   (message_of a \<noteq> None \<and> message_of a = message_of b \<longrightarrow> kind a = kind b)"
proof -
  have first: "(case firstFailure e data w of
      Some err \<Rightarrow> snd (createOrder e data w) = Inl err
    | None \<Rightarrow> (case snd (createOrder e data w) of Inl err \<Rightarrow> kind err = Internal | Inr ord \<Rightarrow> True))"
  proof (cases "firstFailure e data w")
    case None
    then show ?thesis
      using createOrder_firstFailure_None [of e data w]
      by (simp split: sum.split)
  next
    case (Some err)
    then show ?thesis
      using createOrder_firstFailure_Some [of e data w err] by simp
  qed
  have "kind a = kind b" if "message_of a \<noteq> None" and "message_of a = message_of b"
  proof -
    from that obtain s where "message_of a = Some s" "message_of b = Some s" by auto
    then show ?thesis by (rule message_kind)
  qed
  with first show ?thesis by blast
qed

text \<open>
  In the shop whose store takes UUIDs only: a refused lock, an unknown user, a missing
  product, a product id that is no UUID and a short stock, each met first; and an order
  that passes every check.
\<close>

theorem createOrder_throws_first_failure_witness:
  "snd (createOrder strict (order_of aliceId [(widgetId, 3)]) lockedShop) = Inl (LockRefused widgetId) \<and>
   snd (createOrder strict (order_of unusedId [(widgetId, 3)]) shop) = Inl UserAbsent \<and>
   snd (createOrder strict (order_of aliceId [(unusedId, 1)]) shop) = Inl (ProductAbsent unusedId) \<and>
   snd (createOrder strict (order_of aliceId [(''p2'', 1)]) shop) = Inl (QueryFailed ''p2'') \<and>
   snd (createOrder strict (order_of aliceId [(widgetId, 20)]) shop) =
     Inl (StockShort ''widget'' 10 20) \<and>
   message_of (StockShort ''widget'' 10 20) =
     Some ''Insufficient stock for widget. Available: 10, Requested: 20'' \<and>
   firstFailure strict (order_of aliceId [(widgetId, 3)]) shop = None \<and>
   kind (ProductAbsent unusedId) = kind UserAbsent \<and>
   kind (QueryFailed ''p2'') = Internal"
proof -
  have a: "firstFailure strict (order_of aliceId [(widgetId, 3)]) lockedShop =
      Some (LockRefused widgetId)"
    by code_simp
  have u: "firstFailure strict (order_of unusedId [(widgetId, 3)]) shop = Some UserAbsent"
    by code_simp
  have b: "firstFailure strict (order_of aliceId [(unusedId, 1)]) shop =
      Some (ProductAbsent unusedId)"
    by code_simp
  have q: "firstFailure strict (order_of aliceId [(''p2'', 1)]) shop = Some (QueryFailed ''p2'')"
    by code_simp
  have c: "firstFailure strict (order_of aliceId [(widgetId, 20)]) shop =
      Some (StockShort ''widget'' 10 20)"
    by code_simp
  have d: "firstFailure strict (order_of aliceId [(widgetId, 3)]) shop = None"
    by code_simp
  have m: "message_of (StockShort ''widget'' 10 20) =
     Some ''Insufficient stock for widget. Available: 10, Requested: 20''"
    by code_simp
  from createOrder_throws_first_failure
      [of strict "order_of aliceId [(widgetId, 3)]" lockedShop UserAbsent UserAbsent]
    createOrder_throws_first_failure
      [of strict "order_of unusedId [(widgetId, 3)]" shop UserAbsent UserAbsent]
    createOrder_throws_first_failure
      [of strict "order_of aliceId [(unusedId, 1)]" shop UserAbsent UserAbsent]
    createOrder_throws_first_failure
      [of strict "order_of aliceId [(''p2'', 1)]" shop UserAbsent UserAbsent]
    createOrder_throws_first_failure
      [of strict "order_of aliceId [(widgetId, 20)]" shop UserAbsent UserAbsent]
  have x: "snd (createOrder strict (order_of aliceId [(widgetId, 3)]) lockedShop) =
       Inl (LockRefused widgetId)"
    "snd (createOrder strict (order_of unusedId [(widgetId, 3)]) shop) = Inl UserAbsent"
    "snd (createOrder strict (order_of aliceId [(unusedId, 1)]) shop) = Inl (ProductAbsent unusedId)"
    "snd (createOrder strict (order_of aliceId [(''p2'', 1)]) shop) = Inl (QueryFailed ''p2'')"
    "snd (createOrder strict (order_of aliceId [(widgetId, 20)]) shop) =
       Inl (StockShort ''widget'' 10 20)"
    by (simp_all add: a u b q c)
  have k: "kind (ProductAbsent unusedId) = kind UserAbsent" "kind (QueryFailed ''p2'') = Internal"
    by simp_all
  from x m d k show ?thesis
    by (intro conjI)
qed

text \<open>
  C5 as it is worded fails in three ways. With an unknown user and a line of twenty
  against a stock of ten, an item's quantity exceeds the product's stock and the error
  is \<open>NotFound\<close>. With the lock of a missing product held by someone else, a requested
  product is absent and the error is \<open>LockConflict\<close>. And where the store takes UUIDs
  only, a requested product whose id is no UUID is absent and the error is an internal
  one: the read throws before it can find nothing.
\<close>

theorem createOrder_error_kinds_counterexample:
  "exceedsStock (db shop) \<lparr>productId = widgetId, quantity = 20\<rparr> \<and>
   snd (createOrder strict (order_of unusedId [(widgetId, 20)]) shop) = Inl UserAbsent \<and>
   kind UserAbsent = NotFound \<and>
   products (db emptyShop) widgetId = None \<and>
   snd (createOrder strict (order_of aliceId [(widgetId, 1)]) emptyShop) = Inl (LockRefused widgetId) \<and>
   kind (LockRefused widgetId) = LockConflict \<and>
   products (db shop) ''p2'' = None \<and>
   snd (createOrder strict (order_of aliceId [(''p2'', 1)]) shop) = Inl (QueryFailed ''p2'') \<and>
   kind (QueryFailed ''p2'') = Internal"
proof -
  have a: "exceedsStock (db shop) \<lparr>productId = widgetId, quantity = 20\<rparr>"
    by code_simp
  have b: "snd (createOrder strict (order_of unusedId [(widgetId, 20)]) shop) = Inl UserAbsent"
    by code_simp
  have c: "products (db emptyShop) widgetId = None"
    by code_simp
  have d: "snd (createOrder strict (order_of aliceId [(widgetId, 1)]) emptyShop) =
      Inl (LockRefused widgetId)"
    by code_simp
  have f: "products (db shop) ''p2'' = None"
    by code_simp
  have g: "snd (createOrder strict (order_of aliceId [(''p2'', 1)]) shop) = Inl (QueryFailed ''p2'')"
    by code_simp
  have k: "kind UserAbsent = NotFound" "kind (LockRefused widgetId) = LockConflict"
    "kind (QueryFailed ''p2'') = Internal"
    by simp_all
  from a b c d f g k show ?thesis
    by (intro conjI)
qed

text \<open>
  C6. When the transaction of a \<^verbatim>\<open>createOrder\<close> commits and the publish that follows
  fails (no channel, or the broker refuses), \<^verbatim>\<open>createOrder\<close> still returns the order,
  the committed rows are those of the transaction and nothing reaches the broker. More
  generally neither the result nor the committed rows depend on the state of the broker.
\<close>

theorem publish_failure_is_swallowed:
  "(createOrderTx e data w = (w1, Inr (tx, ord)) \<and> (\<not> channel w \<or> brokerRefuses e) \<longrightarrow>
      snd (createOrder e data w) = Inr ord \<and>
      db (fst (createOrder e data w)) = tx \<and>
      outbox (fst (createOrder e data w)) = outbox w) \<and>
   snd (createOrder (e\<lparr>brokerRefuses := b\<rparr>) data (w\<lparr>channel := c\<rparr>)) = snd (createOrder e data w) \<and>
   db (fst (createOrder (e\<lparr>brokerRefuses := b\<rparr>) data (w\<lparr>channel := c\<rparr>))) =
     db (fst (createOrder e data w))"
proof -
  have "snd (createOrder e data w) = Inr ord \<and>
      db (fst (createOrder e data w)) = tx \<and>
      outbox (fst (createOrder e data w)) = outbox w"
    if t: "createOrderTx e data w = (w1, Inr (tx, ord))" and f: "\<not> channel w \<or> brokerRefuses e"
  proof -
    have "channel w1 = channel w" "outbox w1 = outbox w"
      using createOrderTx_world [of e data w] t by simp_all
    with t f show ?thesis
      by (auto simp: createOrder_def Let_def publishToExchange_def emit_def)
  qed
  with createOrder_rewire [where e = e and b = b and data = data and w = w and c = c]
  show ?thesis by blast
qed

text \<open>The order of three widgets with a broker that refuses every publish.\<close>

theorem publish_failure_is_swallowed_witness:
  "snd (createOrder refusing (order_of ''alice'' [(''p1'', 3)]) world0) = Inr order1 \<and>
   orders (db (fst (createOrder refusing (order_of ''alice'' [(''p1'', 3)]) world0))) = [order1] \<and>
   outbox (fst (createOrder refusing (order_of ''alice'' [(''p1'', 3)]) world0)) = [] \<and>
   snd (createOrder refusing (order_of ''alice'' [(''p1'', 3)]) world0) =
     snd (createOrder env0 (order_of ''alice'' [(''p1'', 3)]) world0)"
proof -
  let ?data = "order_of ''alice'' [(''p1'', 3)]"
  obtain w1 r where t: "createOrderTx refusing ?data world0 = (w1, r)"
    by (cases "createOrderTx refusing ?data world0")
  have "map_sum id (\<lambda>ok. (orders (fst ok), snd ok)) (snd (createOrderTx refusing ?data world0)) =
      Inr ([order1], order1)"
    by code_simp
  with t obtain tx where r: "r = Inr (tx, order1)" and o: "orders tx = [order1]"
    by (cases r) auto
  have f: "\<not> channel world0 \<or> brokerRefuses refusing"
    by (simp add: refusing_def)
  have o0: "outbox world0 = []"
    by (simp add: world0_def)
  have same: "refusing = env0\<lparr>brokerRefuses := True\<rparr>" "world0 = world0\<lparr>channel := True\<rparr>"
    by (simp_all add: refusing_def world0_def)
  from publish_failure_is_swallowed [where e = refusing and data = "?data" and w = world0
      and ?w1.0 = w1 and tx = tx and ord = order1 and b = False and c = True] t r f
  have "snd (createOrder refusing ?data world0) = Inr order1"
    "db (fst (createOrder refusing ?data world0)) = tx"
    "outbox (fst (createOrder refusing ?data world0)) = outbox world0"
    by simp_all
  moreover from publish_failure_is_swallowed [where e = env0 and data = "?data" and w = world0
      and ?w1.0 = w1 and tx = tx and ord = order1 and b = True and c = True]
  have "snd (createOrder refusing ?data world0) = snd (createOrder env0 ?data world0)"
    using same by simp
  ultimately show ?thesis using o o0 by simp
qed

text \<open>
  C7, as the code has it. \<^verbatim>\<open>getProductById\<close> on a hit returns what the cached text
  parses to, with one Redis read, no store read and the Redis entry (its TTL included)
  untouched. On a miss it reads the store once. For an id the store takes as a key, an
  absent product is answered with \<^verbatim>\<open>null\<close> and Redis is left as it was; a present one
  is written to Redis with a TTL of 3600 seconds and returned, which makes one store
  read and one cache write, and the call that follows for the same id (the serialised
  snapshot being a non-empty text) is a hit that reads the store zero times.
\<close>

theorem getProductById_cache_aside:
  "(redis w (PRODUCT_CACHE_PREFIX @ pid) = Some ent \<and> rvalue ent \<noteq> [] \<and>
    parse e (rvalue ent) = Some parsed \<longrightarrow>
      snd (getProductById e pid w) = Inr parsed \<and>
      calls w (fst (getProductById e pid w)) = [RedisGet (PRODUCT_CACHE_PREFIX @ pid)] \<and>
      storeReads w (fst (getProductById e pid w)) = 0 \<and>
      redis (fst (getProductById e pid w)) = redis w) \<and>
   (redis w (PRODUCT_CACHE_PREFIX @ pid) = None \<and> \<not> refusesKey e pid \<and>
    products (db w) pid = None \<longrightarrow>
      snd (getProductById e pid w) = Inr NullValue \<and>
      calls w (fst (getProductById e pid w)) =
        [RedisGet (PRODUCT_CACHE_PREFIX @ pid), FindProduct pid] \<and>
      redis (fst (getProductById e pid w)) = redis w) \<and>
   (redis w (PRODUCT_CACHE_PREFIX @ pid) = None \<and> \<not> refusesKey e pid \<and>
    products (db w) pid = Some product \<longrightarrow>
      snd (getProductById e pid w) = Inr (Snapshot product) \<and>
      calls w (fst (getProductById e pid w)) =
        [RedisGet (PRODUCT_CACHE_PREFIX @ pid), FindProduct pid,
         RedisSetEx (PRODUCT_CACHE_PREFIX @ pid) 3600 (stringify e product)] \<and>
      storeReads w (fst (getProductById e pid w)) = 1 \<and>
      cacheWrites w (fst (getProductById e pid w)) = 1 \<and>
      redis (fst (getProductById e pid w)) =
        (redis w)(PRODUCT_CACHE_PREFIX @ pid \<mapsto> \<lparr>rvalue = stringify e product, ttl = 3600\<rparr>) \<and>
      (stringify e product \<noteq> [] \<longrightarrow>
         storeReads (fst (getProductById e pid w))
           (fst (getProductById e pid (fst (getProductById e pid w)))) = 0 \<and>
         (parse e (stringify e product) = Some (Snapshot product) \<longrightarrow>
            snd (getProductById e pid (fst (getProductById e pid w))) = Inr (Snapshot product))))"
proof -
  let ?k = "PRODUCT_CACHE_PREFIX @ pid"
  have hit: "snd (getProductById e pid w) = Inr parsed \<and>
      calls w (fst (getProductById e pid w)) = [RedisGet ?k] \<and>
      storeReads w (fst (getProductById e pid w)) = 0 \<and>
      redis (fst (getProductById e pid w)) = redis w"
    if "redis w ?k = Some ent" "rvalue ent \<noteq> []" "parse e (rvalue ent) = Some parsed"
    using getProductById_hit [OF that]
    by (simp add: calls_def storeReads_def emit_def)
  have absent: "snd (getProductById e pid w) = Inr NullValue \<and>
      calls w (fst (getProductById e pid w)) = [RedisGet ?k, FindProduct pid] \<and>
      redis (fst (getProductById e pid w)) = redis w"
    if "redis w ?k = None" "\<not> refusesKey e pid" "products (db w) pid = None"
    using getProductById_miss_absent [OF that]
    by (simp add: calls_def emit_def)
  have present: "snd (getProductById e pid w) = Inr (Snapshot product) \<and>
      calls w (fst (getProductById e pid w)) =
        [RedisGet ?k, FindProduct pid, RedisSetEx ?k 3600 (stringify e product)] \<and>
      storeReads w (fst (getProductById e pid w)) = 1 \<and>
      cacheWrites w (fst (getProductById e pid w)) = 1 \<and>
      redis (fst (getProductById e pid w)) =
        (redis w)(?k \<mapsto> \<lparr>rvalue = stringify e product, ttl = 3600\<rparr>)"
    if "redis w ?k = None" "\<not> refusesKey e pid" "products (db w) pid = Some product"
    using getProductById_miss_present [OF that]
    by (simp add: calls_def storeReads_def cacheWrites_def
        emit_def redis_setEx_def PRODUCT_CACHE_TTL_def)
  have again: "storeReads (fst (getProductById e pid w))
           (fst (getProductById e pid (fst (getProductById e pid w)))) = 0 \<and>
         (parse e (stringify e product) = Some (Snapshot product) \<longrightarrow>
            snd (getProductById e pid (fst (getProductById e pid w))) = Inr (Snapshot product))"
    if m: "redis w ?k = None" "\<not> refusesKey e pid" "products (db w) pid = Some product"
      and ne: "stringify e product \<noteq> []"
  proof -
    let ?w1 = "fst (getProductById e pid w)"
    from present [OF m] have r1: "redis ?w1 ?k = Some \<lparr>rvalue = stringify e product, ttl = 3600\<rparr>"
      by simp
    show ?thesis
    proof (cases "parse e (stringify e product)")
      case None
      with r1 ne have "getProductById e pid ?w1 = (emit (RedisGet ?k) ?w1, Inl (BadJson (stringify e product)))"
        by (simp add: getProductById_def redis_get_def)
      with None show ?thesis
        by (simp add: calls_def storeReads_def emit_def)
    next
      case (Some parsed)
      from getProductById_hit [OF r1 _ _, of e parsed] ne Some
      have "getProductById e pid ?w1 = (emit (RedisGet ?k) ?w1, Inr parsed)" by simp
      with Some show ?thesis
        by (simp add: calls_def storeReads_def emit_def)
    qed
  qed
  from hit absent present again show ?thesis by blast
qed

text \<open>
  A warm read, a warm read of the text \<^verbatim>\<open>null\<close>, and in the shop whose store takes
  UUIDs only a read of an unknown product and two reads in a row on a cold cache.
\<close>

theorem getProductById_cache_aside_witness:
  "snd (getProductById env0 ''p1'' cached1) = Inr (Snapshot widget) \<and>
   storeReads cached1 (fst (getProductById env0 ''p1'' cached1)) = 0 \<and>
   redis (fst (getProductById env0 ''p1'' cached1)) ''product:p1'' =
     Some \<lparr>rvalue = ''{widget}'', ttl = 1200\<rparr> \<and>
   snd (getProductById env0 ''p1'' cachedNull) = Inr NullValue \<and>
   storeReads cachedNull (fst (getProductById env0 ''p1'' cachedNull)) = 0 \<and>
   snd (getProductById strict unusedId shop) = Inr NullValue \<and>
   redis (fst (getProductById strict unusedId shop)) = redis shop \<and>
   snd (getProductById strict widgetId shop) = Inr (Snapshot widget) \<and>
   storeReads shop (fst (getProductById strict widgetId shop)) = 1 \<and>
   cacheWrites shop (fst (getProductById strict widgetId shop)) = 1 \<and>
   redis (fst (getProductById strict widgetId shop)) (''product:'' @ widgetId) =
     Some \<lparr>rvalue = ''{widget}'', ttl = 3600\<rparr> \<and>
   storeReads (fst (getProductById strict widgetId shop))
     (fst (getProductById strict widgetId (fst (getProductById strict widgetId shop)))) = 0 \<and>
   snd (getProductById strict widgetId (fst (getProductById strict widgetId shop))) =
     Inr (Snapshot widget)"
proof -
  have k: "PRODUCT_CACHE_PREFIX @ ''p1'' = ''product:p1''"
    "PRODUCT_CACHE_PREFIX @ widgetId = ''product:'' @ widgetId"
    "PRODUCT_CACHE_PREFIX @ unusedId = ''product:'' @ unusedId"
    by (simp_all add: PRODUCT_CACHE_PREFIX_def)
  have h1: "redis cached1 (PRODUCT_CACHE_PREFIX @ ''p1'') = Some \<lparr>rvalue = ''{widget}'', ttl = 1200\<rparr>"
    "redis cachedNull (PRODUCT_CACHE_PREFIX @ ''p1'') = Some \<lparr>rvalue = ''null'', ttl = 1200\<rparr>"
    by (simp_all add: cached1_def cachedNull_def k)
  have h2: "parse env0 ''{widget}'' = Some (Snapshot widget)" "parse env0 ''null'' = Some NullValue"
    "stringify env0 widget = ''{widget}''"
    "parse strict = parse env0" "stringify strict = stringify env0"
    by (simp_all add: env0_def strict_def widget_def)
  have h3: "redis shop (PRODUCT_CACHE_PREFIX @ unusedId) = None" "products (db shop) unusedId = None"
    "redis shop (PRODUCT_CACHE_PREFIX @ widgetId) = None" "products (db shop) widgetId = Some widget"
    by (simp_all add: shop_def world0_def db0_def unusedId_def widgetId_def)
  have h4: "\<not> refusesKey strict unusedId" "\<not> refusesKey strict widgetId"
    by code_simp+
  from getProductById_cache_aside [of cached1 "''p1''" "\<lparr>rvalue = ''{widget}'', ttl = 1200\<rparr>" env0
      "Snapshot widget"] h1 h2
  have a: "snd (getProductById env0 ''p1'' cached1) = Inr (Snapshot widget)"
    "storeReads cached1 (fst (getProductById env0 ''p1'' cached1)) = 0"
    "redis (fst (getProductById env0 ''p1'' cached1)) = redis cached1"
    by simp_all
  from getProductById_cache_aside [of cachedNull "''p1''" "\<lparr>rvalue = ''null'', ttl = 1200\<rparr>" env0
      NullValue] h1 h2
  have n: "snd (getProductById env0 ''p1'' cachedNull) = Inr NullValue"
    "storeReads cachedNull (fst (getProductById env0 ''p1'' cachedNull)) = 0"
    by simp_all
  from getProductById_cache_aside [of shop unusedId _ strict] h3 h4
  have b: "snd (getProductById strict unusedId shop) = Inr NullValue"
    "redis (fst (getProductById strict unusedId shop)) = redis shop"
    by simp_all
  from getProductById_cache_aside [of shop widgetId _ strict _ widget] h3 h4 h2
  have c: "snd (getProductById strict widgetId shop) = Inr (Snapshot widget)"
    "storeReads shop (fst (getProductById strict widgetId shop)) = 1"
    "cacheWrites shop (fst (getProductById strict widgetId shop)) = 1"
    "redis (fst (getProductById strict widgetId shop)) =
        (redis shop)(PRODUCT_CACHE_PREFIX @ widgetId \<mapsto> \<lparr>rvalue = ''{widget}'', ttl = 3600\<rparr>)"
    "storeReads (fst (getProductById strict widgetId shop))
       (fst (getProductById strict widgetId (fst (getProductById strict widgetId shop)))) = 0"
    "snd (getProductById strict widgetId (fst (getProductById strict widgetId shop))) =
       Inr (Snapshot widget)"
    by simp_all
  from a n b c h1 show ?thesis by (simp add: k)
qed

text \<open>
  C7 as it is worded fails for an id the store does not take as a key: where the store
  takes UUIDs only, the product \<^verbatim>\<open>nope\<close> is absent, the cache misses, and the read of
  the store throws instead of answering that there is no such product.
\<close>

theorem getProductById_absent_counterexample:
  "redis shop (PRODUCT_CACHE_PREFIX @ ''nope'') = None \<and>
   products (db shop) ''nope'' = None \<and>
   snd (getProductById strict ''nope'' shop) = Inl (QueryFailed ''nope'') \<and>
   snd (getProductById strict ''nope'' shop) \<noteq> Inr NullValue"
proof -
  have a: "redis shop (PRODUCT_CACHE_PREFIX @ ''nope'') = None"
    by code_simp
  have b: "products (db shop) ''nope'' = None"
    by code_simp
  have c: "snd (getProductById strict ''nope'' shop) = Inl (QueryFailed ''nope'')"
    by code_simp
  from a b c show ?thesis by simp
qed

text \<open>
  C8. For an order that \<^verbatim>\<open>createOrder\<close> has created (the uuids drawn for it being
  distinct and not yet used by an order item): the order's \<^verbatim>\<open>totalPrice\<close> is the sum
  over its items of \<^verbatim>\<open>unitPrice\<close> times \<^verbatim>\<open>quantity\<close>; every item's \<^verbatim>\<open>totalPrice\<close> is
  its quantity times its unit price; every item's unit price is the price of its
  product as the request found it, which is the price the reservation of that line
  read; the items are the lines of the request, in order; and the stored order is the
  returned one.
\<close>

theorem order_totals_and_unit_prices:
  "snd (createOrder e data w) = Inr ord \<Longrightarrow>
   inj_on (uuidv4 e) {drawn w..} \<Longrightarrow>
   \<forall>n\<ge>drawn w. uuidv4 e n \<notin> item_id ` set (orderItems (db w)) \<and>
                 uuidv4 e n \<notin> orderId ` set (orderItems (db w)) \<Longrightarrow>
     totalPrice ord =
       sum_list (map (\<lambda>i. unitPrice i * item_quantity i)
         (itemsOf (order_id ord) (db (fst (createOrder e data w))))) \<and>
     (\<forall>i \<in> set (itemsOf (order_id ord) (db (fst (createOrder e data w)))).
        item_totalPrice i = item_quantity i * unitPrice i \<and>
        (\<exists>pr. products (db w) (item_productId i) = Some pr \<and> unitPrice i = price pr)) \<and>
     map (\<lambda>i. (item_productId i, item_quantity i))
         (itemsOf (order_id ord) (db (fst (createOrder e data w)))) =
       map (\<lambda>i. (productId i, quantity i)) (items data) \<and>
     totalPrice ord = linesTotal (products (db w)) (items data) \<and>
     find (\<lambda>x. order_id x = order_id ord) (orders (db (fst (createOrder e data w)))) = Some ord"
proof -
  assume ok: "snd (createOrder e data w) = Inr ord"
    and inj: "inj_on (uuidv4 e) {drawn w..}"
    and fresh: "\<forall>n\<ge>drawn w. uuidv4 e n \<notin> item_id ` set (orderItems (db w)) \<and>
                 uuidv4 e n \<notin> orderId ` set (orderItems (db w))"
  from ok inj fresh obtain new where
    a: "itemsOf (order_id ord) (db (fst (createOrder e data w))) = new" and
    n: "new = lineItems e (order_id ord) (products (db w))
             (Suc (Suc (drawn w + length (items data)))) (items data)" and
    d: "\<forall>i \<in> set (items data). products (db w) (productId i) \<noteq> None" and
    t: "totalPrice ord = linesTotal (products (db w)) (items data)" and
    f: "find (\<lambda>x. order_id x = order_id ord) (orders (db (fst (createOrder e data w)))) = Some ord"
    by (rule createOrder_items)
  note lf = lineItems_facts [OF d, of e "order_id ord" "Suc (Suc (drawn w + length (items data)))"]
  show ?thesis
    unfolding a n using lf(3) lf(4) lf(5) t f by simp
qed

theorem order_totals_and_unit_prices_witness:
  "snd (createOrder env0 (order_of ''alice'' [(''p1'', 3)]) world0) = Inr order1 \<and>
   totalPrice order1 = 750 \<and>
   sum_list (map (\<lambda>i. unitPrice i * item_quantity i)
     (itemsOf ''uuu'' (db (fst (createOrder env0 (order_of ''alice'' [(''p1'', 3)]) world0))))) = 750 \<and>
   map (\<lambda>i. (item_productId i, item_quantity i, unitPrice i, item_totalPrice i))
     (itemsOf ''uuu'' (db (fst (createOrder env0 (order_of ''alice'' [(''p1'', 3)]) world0)))) =
     [(''p1'', 3, 250, 750)]"
proof -
  let ?run = "createOrder env0 (order_of ''alice'' [(''p1'', 3)]) world0"
  have ok: "snd ?run = Inr order1"
    by code_simp
  have inj: "inj_on (uuidv4 env0) {drawn world0..}"
    by (rule env0_uuids_distinct)
  have fresh: "\<forall>n\<ge>drawn world0. uuidv4 env0 n \<notin> item_id ` set (orderItems (db world0)) \<and>
                 uuidv4 env0 n \<notin> orderId ` set (orderItems (db world0))"
    by (simp add: world0_def db0_def)
  have o: "order_id order1 = ''uuu''" "totalPrice order1 = 750"
    by (simp_all add: order1_def)
  have its: "map (\<lambda>i. (item_productId i, item_quantity i, unitPrice i, item_totalPrice i))
     (itemsOf ''uuu'' (db (fst ?run))) = [(''p1'', 3, 250, 750)]"
    by code_simp
  from order_totals_and_unit_prices [OF ok inj fresh]
  have "totalPrice order1 =
       sum_list (map (\<lambda>i. unitPrice i * item_quantity i) (itemsOf (order_id order1) (db (fst ?run))))"
    by blast
  with ok o its show ?thesis by simp
qed

text \<open>
  C9. One turn of the reservation loop sends Redis exactly these commands: one
  \<^verbatim>\<open>SET key token NX EX 30\<close> with the next uuid as token and, only when that was
  granted, the delete of the cached snapshot (on success) and the delete of the lock key
  (always). The token is never read back. A refusal is not retried: the loop, and with
  it the order, fails with the lock error and Redis is as before. The delete removes
  whatever entry the key holds.
\<close>

theorem lock_acquire_and_release:
  "redisCalls w (fst (reserveItem e item w tx tot)) =
     (if redis w (STOCK_LOCK_PREFIX @ productId item) \<noteq> None
      then [RedisSetNX (STOCK_LOCK_PREFIX @ productId item) (uuidv4 e (drawn w)) 30]
      else if isl (snd (reserveItem e item w tx tot))
      then [RedisSetNX (STOCK_LOCK_PREFIX @ productId item) (uuidv4 e (drawn w)) 30,
            RedisDel (STOCK_LOCK_PREFIX @ productId item)]
      else [RedisSetNX (STOCK_LOCK_PREFIX @ productId item) (uuidv4 e (drawn w)) 30,
            RedisDel (''product:'' @ productId item),
            RedisDel (STOCK_LOCK_PREFIX @ productId item)]) \<and>
   drawn (fst (reserveItem e item w tx tot)) = Suc (drawn w) \<and>
   redis (fst (reserveItem e item w tx tot)) (STOCK_LOCK_PREFIX @ productId item) =
     redis w (STOCK_LOCK_PREFIX @ productId item) \<and>
   (redis w (STOCK_LOCK_PREFIX @ productId item) \<noteq> None \<longrightarrow>
      snd (reserveAll e (item # rest) w tx tot) = Inl (LockRefused (productId item)) \<and>
      redis (fst (reserveAll e (item # rest) w tx tot)) = redis w) \<and>
   (firstFailure e data w = Some (LockRefused p) \<longrightarrow>
      snd (createOrder e data w) = Inl (LockRefused p) \<and>
      db (fst (createOrder e data w)) = db w) \<and>
   redis (redis_del k (w\<lparr>redis := (redis w)(k \<mapsto> ent)\<rparr>)) k = None"
proof -
  have whole: "snd (createOrder e data w) = Inl (LockRefused p) \<and>
      db (fst (createOrder e data w)) = db w"
    if "firstFailure e data w = Some (LockRefused p)"
  proof -
    from createOrder_firstFailure_Some [OF that]
    have r: "snd (createOrder e data w) = Inl (LockRefused p)" .
    then have "isl (snd (createOrder e data w))" by simp
    with r show ?thesis by (simp add: createOrder_Inl_db)
  qed
  have del: "redis (redis_del k (w\<lparr>redis := (redis w)(k \<mapsto> ent)\<rparr>)) k = None"
    by (simp add: redis_del_def emit_def)
  show ?thesis
    using reserveItem_redisCalls [of w e item tx tot] reserveItem_world(4) [of e item w tx tot]
      reserveItem_locks [of e item w tx tot "productId item"]
      reserveItem_refused [of w item e rest tx tot] whole del
    by blast
qed

theorem lock_acquire_and_release_witness:
  "redisCalls locked1 (fst (reserveItem env0 \<lparr>productId = ''p1'', quantity = 3\<rparr> locked1 db0 0)) =
     [RedisSetNX ''stock_lock:p1'' ''u'' 30] \<and>
   snd (createOrder env0 (order_of ''alice'' [(''p1'', 3)]) locked1) = Inl (LockRefused ''p1'') \<and>
   redis (fst (reserveItem env0 \<lparr>productId = ''p1'', quantity = 3\<rparr> locked1 db0 0)) ''stock_lock:p1'' =
     Some \<lparr>rvalue = ''someone-else'', ttl = 30\<rparr> \<and>
   redisCalls world0 (fst (reserveItem env0 \<lparr>productId = ''p1'', quantity = 3\<rparr> world0 db0 0)) =
     [RedisSetNX ''stock_lock:p1'' ''u'' 30, RedisDel ''product:p1'', RedisDel ''stock_lock:p1''] \<and>
   redis (fst (reserveItem env0 \<lparr>productId = ''p1'', quantity = 3\<rparr> world0 db0 0)) ''stock_lock:p1'' =
     None"
proof -
  let ?item = "\<lparr>productId = ''p1'', quantity = 3\<rparr>"
  have k: "STOCK_LOCK_PREFIX @ ''p1'' = ''stock_lock:p1''"
    by (simp add: STOCK_LOCK_PREFIX_def)
  have h1: "redis locked1 ''stock_lock:p1'' = Some \<lparr>rvalue = ''someone-else'', ttl = 30\<rparr>"
    by (simp add: locked1_def)
  have h2: "redis world0 ''stock_lock:p1'' = None"
    by (simp add: world0_def)
  have h3: "\<not> isl (snd (reserveItem env0 ?item world0 db0 0))"
    by code_simp
  have h4: "firstFailure env0 (order_of ''alice'' [(''p1'', 3)]) locked1 = Some (LockRefused ''p1'')"
    by code_simp
  have u: "uuidv4 env0 (drawn locked1) = ''u''" "uuidv4 env0 (drawn world0) = ''u''"
    by (simp_all add: env0_def locked1_def world0_def)
  note refused = lock_acquire_and_release [where w = locked1 and e = env0 and item = "?item"
      and tx = db0 and tot = 0 and data = "order_of ''alice'' [(''p1'', 3)]" and p = "''p1''"
      and rest = "[]" and k = "''k''" and ent = "\<lparr>rvalue = ''t'', ttl = 1\<rparr>"]
  note granted = lock_acquire_and_release [where w = world0 and e = env0 and item = "?item"
      and tx = db0 and tot = 0 and data = "order_of ''alice'' [(''p1'', 3)]" and p = "''p1''"
      and rest = "[]" and k = "''k''" and ent = "\<lparr>rvalue = ''t'', ttl = 1\<rparr>"]
  from refused h1 h4
  have a: "redisCalls locked1 (fst (reserveItem env0 ?item locked1 db0 0)) =
      [RedisSetNX ''stock_lock:p1'' ''u'' 30]"
    "snd (createOrder env0 (order_of ''alice'' [(''p1'', 3)]) locked1) = Inl (LockRefused ''p1'')"
    "redis (fst (reserveItem env0 ?item locked1 db0 0)) ''stock_lock:p1'' =
      Some \<lparr>rvalue = ''someone-else'', ttl = 30\<rparr>"
    by (simp_all add: k u)
  from granted h2 h3
  have b: "redisCalls world0 (fst (reserveItem env0 ?item world0 db0 0)) =
      [RedisSetNX ''stock_lock:p1'' ''u'' 30, RedisDel ''product:p1'', RedisDel ''stock_lock:p1'']"
    "redis (fst (reserveItem env0 ?item world0 db0 0)) ''stock_lock:p1'' = None"
    by (simp_all add: k u)
  from a b show ?thesis by simp
qed

text \<open>
  C10. When an item of the order refers to a product that no longer exists (and no
  write is refused), \<^verbatim>\<open>cancelOrder\<close> still succeeds: the status becomes \<^verbatim>\<open>CANCELLED\<close>, the
  \<^verbatim>\<open>ORDER_CANCELLED\<close> row is written and the transaction commits; nothing is restored
  for that item (no row appears under its product id) and no error is raised.
\<close>

theorem cancelOrder_skips_missing_product:
  "find (\<lambda>order. order_id order = oid) (orders (db w)) = Some order \<Longrightarrow>
   status order \<noteq> CANCELLED \<Longrightarrow>
   (\<And>wr. \<not> rejects e wr) \<Longrightarrow>
   item \<in> set (itemsOf oid (db w)) \<Longrightarrow>
   products (db w) (item_productId item) = None \<Longrightarrow>
     snd (cancelOrder e oid w) = Inr (Some (order\<lparr>status := CANCELLED\<rparr>)) \<and>
     find (\<lambda>order. order_id order = oid) (orders (db (fst (cancelOrder e oid w)))) =
       Some (order\<lparr>status := CANCELLED\<rparr>) \<and>
     cancelledLog (uuidv4 e (drawn w)) oid (clock e) \<in> set (eventLogs (db (fst (cancelOrder e oid w)))) \<and>
     last (trace (fst (cancelOrder e oid w))) = Commit \<and>
     products (db (fst (cancelOrder e oid w))) (item_productId item) = None \<and>
     (\<forall>p. products (db (fst (cancelOrder e oid w))) p =
          map_option (released (restoredFor p (itemsOf oid (db w)))) (products (db w) p))"
proof -
  assume f: "find (\<lambda>order. order_id order = oid) (orders (db w)) = Some order"
    and s: "status order \<noteq> CANCELLED"
    and n: "\<And>wr. \<not> rejects e wr"
    and "item \<in> set (itemsOf oid (db w))"
    and gone: "products (db w) (item_productId item) = None"
  note ok = cancelOrder_ok [OF f s n]
  have oid: "order_id order = oid" using f by (rule find_order_id)
  have fnd: "find (\<lambda>x. order_id x = oid) (upsert order_id (order\<lparr>status := CANCELLED\<rparr>) (orders (db w))) =
      Some (order\<lparr>status := CANCELLED\<rparr>)"
    using find_upsert_same [of order_id "order\<lparr>status := CANCELLED\<rparr>" "orders (db w)"] oid by simp
  show ?thesis
    using ok oid fnd gone by (simp add: cancelledDb_def set_upsert)
qed

theorem cancelOrder_skips_missing_product_witness:
  "products (db world9) ''gone'' = None \<and>
   snd (cancelOrder env0 ''o9'' world9) = Inr (Some (order9\<lparr>status := CANCELLED\<rparr>)) \<and>
   find (\<lambda>order. order_id order = ''o9'') (orders (db (fst (cancelOrder env0 ''o9'' world9)))) =
     Some (order9\<lparr>status := CANCELLED\<rparr>) \<and>
   cancelledLog ''u'' ''o9'' 7 \<in> set (eventLogs (db (fst (cancelOrder env0 ''o9'' world9)))) \<and>
   products (db (fst (cancelOrder env0 ''o9'' world9))) ''gone'' = None \<and>
   products (db (fst (cancelOrder env0 ''o9'' world9))) ''p1'' = Some widget"
proof -
  let ?item = "\<lparr>item_id = ''i2'', orderId = ''o9'', item_productId = ''gone'', item_quantity = 4,
          unitPrice = 100, item_totalPrice = 400\<rparr>"
  have f: "find (\<lambda>order. order_id order = ''o9'') (orders (db world9)) = Some order9"
    by (simp add: world9_def db9_def order9_def)
  have s: "status order9 \<noteq> CANCELLED"
    by (simp add: order9_def)
  have i: "?item \<in> set (itemsOf ''o9'' (db world9))"
    by (simp add: itemsOf_def world9_def db9_def)
  have g: "products (db world9) (item_productId ?item) = None"
    by (simp add: world9_def db9_def)
  have u0: "uuidv4 env0 (drawn world9) = ''u''" "clock env0 = 7"
    by (simp_all add: env0_def world9_def)
  have rf: "restoredFor ''p1'' (itemsOf ''o9'' (db world9)) = 2"
    by (simp add: restoredFor_def itemsOf_def world9_def db9_def)
  have p1: "products (db world9) ''p1'' = Some (widget\<lparr>stock := 8, reservedStock := 2\<rparr>)"
    by (simp add: world9_def db9_def)
  from cancelOrder_skips_missing_product [OF f s env0_accepts i g] g
  show ?thesis
    by (simp add: u0 rf p1 released_def widget_def)
qed

end
